theory Spec2Isabelle
  imports Main
begin

section \<open>JavaScript values\<close>

text \<open>
  The converter works on the untyped trees that the YAML parser returns. The values
  here are those of the tags \<open>null\<close>, \<open>bool\<close>, \<open>int\<close>, \<open>float\<close>, \<open>str\<close>, \<open>timestamp\<close>, \<open>seq\<close>
  and \<open>map\<close>: maps, sequences and scalars (a value of the tag \<open>binary\<close>, a byte array,
  is not among them). A map is an association list, in insertion order, as the keys of
  a JavaScript object are.

  The program never computes with a number: it tests it for truthiness, copies it
  through JSON and prints it. A number is an integer, minus zero, \<open>NaN\<close>, an infinity,
  or a finite number that is not an integer; the model does not look inside the last
  kind, which is only named by an index.
\<close>

datatype number = NInt int | NNegZero | NNaN | NInf | NNegInf | NFrac nat

text \<open>
  A timestamp is a \<open>Date\<close> object. The program never changes one, so it is a value
  here, named by the string that \<open>Date.prototype.toISOString\<close> gives for it (the
  parser makes valid dates only).
\<close>

datatype jsval =
    JUndefined
  | JNull
  | JBool bool
  | JNum number
  | JStr string
  | JDate string
  | JArr "jsval list"
  | JObj "(string \<times> jsval) list"

text \<open>
  What the program can throw: a \<open>TypeError\<close> (reading or deleting a property of
  \<open>undefined\<close> or \<open>null\<close>, calling \<open>.map\<close> on a value that has none, making a
  string of a map that cannot be one, copying through JSON a value that contains
  itself, resolving a path from a value that is not a string), the \<open>SyntaxError\<close> of
  \<open>JSON.parse(undefined)\<close>, and whatever reading, parsing and dumping YAML throw.
\<close>

datatype error = TypeError | SyntaxError | ExternalError string

definition bindE :: "error + 'a \<Rightarrow> ('a \<Rightarrow> error + 'b) \<Rightarrow> error + 'b" where
  "bindE m f = (case m of Inl e \<Rightarrow> Inl e | Inr x \<Rightarrow> f x)"

text \<open>\<open>Array.prototype.map\<close> with a callback that may throw: the first throw ends the loop.\<close>

fun mapE :: "('a \<Rightarrow> error + 'b) \<Rightarrow> 'a list \<Rightarrow> error + 'b list" where
  "mapE f [] = Inr []"
| "mapE f (x # xs) = bindE (f x) (\<lambda>y. bindE (mapE f xs) (\<lambda>ys. Inr (y # ys)))"

text \<open>JavaScript truthiness (\<open>if (v)\<close>, \<open>!v\<close>, \<open>a || b\<close>).\<close>

fun truthy :: "jsval \<Rightarrow> bool" where
  "truthy JUndefined = False"
| "truthy JNull = False"
| "truthy (JBool b) = b"
| "truthy (JNum n) = (n \<noteq> NInt 0 \<and> n \<noteq> NNegZero \<and> n \<noteq> NNaN)"
| "truthy (JStr s) = (s \<noteq> [])"
| "truthy (JDate d) = True"
| "truthy (JArr vs) = True"
| "truthy (JObj kvs) = True"

text \<open>The own property \<open>k\<close> of a map, \<open>undefined\<close> when there is none.\<close>

definition lookup :: "(string \<times> jsval) list \<Rightarrow> string \<Rightarrow> jsval" where
  "lookup kvs k = (case map_of kvs k of None \<Rightarrow> JUndefined | Some v \<Rightarrow> v)"

text \<open>
  The property read \<open>v.k\<close> or \<open>v[k]\<close>. It throws on \<open>undefined\<close> and \<open>null\<close>. On a
  scalar, a date or a sequence it is \<open>undefined\<close> for every name the program reads
  (none of them is a built-in property of strings, numbers, booleans, dates or arrays).
\<close>

fun get :: "jsval \<Rightarrow> string \<Rightarrow> error + jsval" where
  "get JUndefined k = Inl TypeError"
| "get JNull k = Inl TypeError"
| "get (JObj kvs) k = Inr (lookup kvs k)"
| "get v k = Inr JUndefined"

text \<open>The assignment \<open>o.k = v\<close> on a map: replaces the value in place or appends the key.\<close>

fun set_prop :: "(string \<times> jsval) list \<Rightarrow> string \<Rightarrow> jsval \<Rightarrow> (string \<times> jsval) list" where
  "set_prop [] k v = [(k, v)]"
| "set_prop ((k', v') # kvs) k v =
     (if k' = k then (k, v) # kvs else (k', v') # set_prop kvs k v)"

text \<open>A chain of property reads, \<open>v.k1.k2\<close>.\<close>

fun get_path :: "jsval \<Rightarrow> string list \<Rightarrow> error + jsval" where
  "get_path v [] = Inr v"
| "get_path v (k # ks) = bindE (get v k) (\<lambda>w. get_path w ks)"

section \<open>Remote references\<close>

text \<open>
  \<^verbatim>\<open>
  const createRemoteRef = (dataItem) => {
    const remoteRef = { key: dataItem.key };
    const version = dataItem.version || dataItem.versionId || dataItem.versionStage;
    if (version) { remoteRef.version = version; }
    if (dataItem.property) { remoteRef.property = dataItem.property; }
    return remoteRef;
  };
  \<close>
\<close>

definition createRemoteRef :: "jsval \<Rightarrow> error + jsval" where
  "createRemoteRef dataItem =
     bindE (get dataItem ''key'') (\<lambda>key.
     let remoteRef = [(''key'', key)] in
     bindE (get dataItem ''version'') (\<lambda>v.
     bindE (if truthy v then Inr v
            else bindE (get dataItem ''versionId'') (\<lambda>vid.
                 if truthy vid then Inr vid else get dataItem ''versionStage'')) (\<lambda>version.
     let remoteRef = (if truthy version then set_prop remoteRef ''version'' version
                      else remoteRef) in
     bindE (get dataItem ''property'') (\<lambda>property.
     let remoteRef = (if truthy property then set_prop remoteRef ''property'' property
                      else remoteRef) in
     Inr (JObj remoteRef)))))"

text \<open>
  \<^verbatim>\<open>
  const convertData = (kesData) =>
    kesData.map((dataItem) => ({
      secretKey: dataItem.name,
      remoteRef: createRemoteRef(dataItem),
    }));
  \<close>
  Only a sequence has \<open>.map\<close>; on any other value the call throws a \<open>TypeError\<close>.
\<close>

definition convertData :: "jsval \<Rightarrow> error + jsval" where
  "convertData kesData =
     (case kesData of
        JArr items \<Rightarrow>
          bindE (mapE (\<lambda>dataItem.
                   bindE (get dataItem ''name'') (\<lambda>name.
                   bindE (createRemoteRef dataItem) (\<lambda>remoteRef.
                   Inr (JObj [(''secretKey'', name), (''remoteRef'', remoteRef)])))) items)
            (\<lambda>ys. Inr (JArr ys))
      | _ \<Rightarrow> Inl TypeError)"

text \<open>
  \<^verbatim>\<open>
  const convertDataFrom = (kesDataFrom) =>
    kesDataFrom.map((dataFromItem) => createRemoteRef({ key: dataFromItem }));
  \<close>
\<close>

definition convertDataFrom :: "jsval \<Rightarrow> error + jsval" where
  "convertDataFrom kesDataFrom =
     (case kesDataFrom of
        JArr items \<Rightarrow>
          bindE (mapE (\<lambda>dataFromItem. createRemoteRef (JObj [(''key'', dataFromItem)])) items)
            (\<lambda>ys. Inr (JArr ys))
      | _ \<Rightarrow> Inl TypeError)"

section \<open>Transformation\<close>

text \<open>The command-line flags the pipeline reads (\<open>cli.flags\<close>).\<close>

record flags =
  out :: string
  refreshInterval :: string
  cluster :: bool

text \<open>The defaults of the flags, as the source declares them.\<close>

definition default_flags :: flags where
  "default_flags = \<lparr>out = ''./converted'', refreshInterval = ''1h'', cluster = False\<rparr>"

text \<open>
  The callback of the last \<open>.map\<close> of the pipeline:
  \<^verbatim>\<open>
  (kes) => {
    const eso = {
      apiVersion: 'external-secrets.io/v1alpha1',
      kind: 'ExternalSecret',
      metadata: kes.metadata,
      spec: {
        refreshInterval,
        secretStoreRef: {
          name: kes.spec.backendType,
          kind: cluster ? 'ClusterSecretStore' : 'SecretStore',
        },
      },
    };
    if (kes.spec.template) { eso.spec.target = { template: kes.spec.template }; }
    if (kes.spec.data) { eso.spec.data = convertData(kes.spec.data); }
    if (kes.spec.dataFrom) { eso.spec.dataFrom = convertDataFrom(kes.spec.dataFrom); }
    return eso;
  }
  \<close>
  The function is anonymous in the source; it is called \<open>kesToEso\<close> here. The map
  \<open>eso.spec\<close> is kept in a variable of its own and put into \<open>eso\<close> at the end.
\<close>

definition kesToEso :: "flags \<Rightarrow> jsval \<Rightarrow> error + jsval" where
  "kesToEso cfg kes =
     bindE (get kes ''metadata'') (\<lambda>metadata.
     bindE (get kes ''spec'') (\<lambda>spec.
     bindE (get spec ''backendType'') (\<lambda>backendType.
     let eso_spec =
           [(''refreshInterval'', JStr (refreshInterval cfg)),
            (''secretStoreRef'',
               JObj [(''name'', backendType),
                     (''kind'', JStr (if cluster cfg then ''ClusterSecretStore''
                                      else ''SecretStore''))])] in
     bindE (get spec ''template'') (\<lambda>template.
     let eso_spec = (if truthy template
                     then set_prop eso_spec ''target'' (JObj [(''template'', template)])
                     else eso_spec) in
     bindE (get spec ''data'') (\<lambda>data.
     bindE (if truthy data
            then bindE (convertData data) (\<lambda>d. Inr (set_prop eso_spec ''data'' d))
            else Inr eso_spec) (\<lambda>eso_spec.
     bindE (get spec ''dataFrom'') (\<lambda>dataFrom.
     bindE (if truthy dataFrom
            then bindE (convertDataFrom dataFrom) (\<lambda>d. Inr (set_prop eso_spec ''dataFrom'' d))
            else Inr eso_spec) (\<lambda>eso_spec.
     Inr (JObj [(''apiVersion'', JStr ''external-secrets.io/v1alpha1''),
                (''kind'', JStr ''ExternalSecret''),
                (''metadata'', metadata),
                (''spec'', JObj eso_spec)])))))))))"

section \<open>Cleaning\<close>

text \<open>
  \<open>JSON.parse(JSON.stringify(item))\<close> on a tree: a map loses the keys whose value is
  \<open>undefined\<close>, a sequence gets \<open>null\<close> in place of \<open>undefined\<close>, a date becomes the
  string of its \<open>toISOString\<close>, \<open>NaN\<close> and the infinities become \<open>null\<close>, minus zero
  becomes zero, and everything else is rebuilt as it is. \<open>JSON.stringify(undefined)\<close>
  is \<open>undefined\<close>, which \<open>JSON.parse\<close> rejects with a \<open>SyntaxError\<close>.
\<close>

fun json_number :: "number \<Rightarrow> jsval" where
  "json_number NNaN = JNull"
| "json_number NInf = JNull"
| "json_number NNegInf = JNull"
| "json_number NNegZero = JNum (NInt 0)"
| "json_number n = JNum n"

fun json_clone :: "jsval \<Rightarrow> jsval" where
  "json_clone (JArr vs) = JArr (map (\<lambda>v. if v = JUndefined then JNull else json_clone v) vs)"
| "json_clone (JObj kvs) =
     JObj (map (\<lambda>(k, v). (k, json_clone v)) (filter (\<lambda>(k, v). v \<noteq> JUndefined) kvs))"
| "json_clone (JNum n) = json_number n"
| "json_clone (JDate d) = JStr d"
| "json_clone v = v"

definition json_roundtrip :: "jsval \<Rightarrow> error + jsval" where
  "json_roundtrip item = (if item = JUndefined then Inl SyntaxError else Inr (json_clone item))"

text \<open>
  \<open>delete v[k]\<close>: throws on \<open>undefined\<close> and \<open>null\<close>, removes the key of a map, and
  does nothing on a scalar, a date or a sequence (none of the deleted names is a property
  of one).
\<close>

fun delete_prop :: "jsval \<Rightarrow> string \<Rightarrow> error + jsval" where
  "delete_prop JUndefined k = Inl TypeError"
| "delete_prop JNull k = Inl TypeError"
| "delete_prop (JObj kvs) k = Inr (JObj (filter (\<lambda>(k', v). k' \<noteq> k) kvs))"
| "delete_prop v k = Inr v"

text \<open>
  A tree has no references: after a map reached through \<open>v.f\<close> has been changed, the
  tree of \<open>v\<close> is the old one with the new map under \<open>f\<close>.
\<close>

fun store :: "jsval \<Rightarrow> string \<Rightarrow> jsval \<Rightarrow> jsval" where
  "store (JObj kvs) f w = JObj (set_prop kvs f w)"
| "store v f w = v"

text \<open>\<open>delete copy.f[k]\<close>\<close>

definition delete_in :: "jsval \<Rightarrow> string \<Rightarrow> string \<Rightarrow> error + jsval" where
  "delete_in copy f k =
     bindE (get copy f) (\<lambda>m.
     bindE (delete_prop m k) (\<lambda>m'.
     Inr (store copy f m')))"

text \<open>\<open>delete copy.metadata.annotations?.[k]\<close>: nothing happens when there are no annotations.\<close>

definition delete_annotation :: "jsval \<Rightarrow> string \<Rightarrow> error + jsval" where
  "delete_annotation copy k =
     bindE (get copy ''metadata'') (\<lambda>m.
     bindE (get m ''annotations'') (\<lambda>a.
     if a = JUndefined \<or> a = JNull then Inr copy
     else bindE (delete_prop a k) (\<lambda>a'.
          Inr (store copy ''metadata'' (store m ''annotations'' a')))))"

text \<open>
  \<^verbatim>\<open>
  const cleanKesItem = (item) => {
    const copy = JSON.parse(JSON.stringify(item));
    delete copy.metadata.creationTimestamp;
    delete copy.metadata.generation;
    delete copy.metadata.resourceVersion;
    delete copy.metadata.uid;
    delete copy.metadata.selfLink;
    delete copy.metadata.annotations?.['kubectl.kubernetes.io/last-applied-configuration'];
    delete copy.status;
    return copy;
  };
  \<close>
\<close>

definition cleanKesItem :: "jsval \<Rightarrow> error + jsval" where
  "cleanKesItem item =
     bindE (json_roundtrip item) (\<lambda>copy.
     bindE (delete_in copy ''metadata'' ''creationTimestamp'') (\<lambda>copy.
     bindE (delete_in copy ''metadata'' ''generation'') (\<lambda>copy.
     bindE (delete_in copy ''metadata'' ''resourceVersion'') (\<lambda>copy.
     bindE (delete_in copy ''metadata'' ''uid'') (\<lambda>copy.
     bindE (delete_in copy ''metadata'' ''selfLink'') (\<lambda>copy.
     bindE (delete_annotation copy ''kubectl.kubernetes.io/last-applied-configuration'') (\<lambda>copy.
     delete_prop copy ''status'')))))))"

section \<open>Eligibility filter\<close>

text \<open>
  One console call is the list of its arguments. A computation that prints returns what
  it printed together with its result, so that what was printed before a throw is kept.
\<close>

type_synonym message = "jsval list"

type_synonym 'a logged = "message list \<times> (error + 'a)"

definition bindL :: "'a logged \<Rightarrow> ('a \<Rightarrow> 'b logged) \<Rightarrow> 'b logged" where
  "bindL m f =
     (case m of
        (ms, Inl e) \<Rightarrow> (ms, Inl e)
      | (ms, Inr x) \<Rightarrow> (case f x of (ms', r) \<Rightarrow> (ms @ ms', r)))"

definition pureL :: "error + 'a \<Rightarrow> 'a logged" where
  "pureL r = ([], r)"

definition console_error :: "message \<Rightarrow> unit logged" where
  "console_error args = ([args], Inr ())"

text \<open>
  \<open>a !== b\<close> where \<open>b\<close> is a literal of the program: scalars are compared by value
  (\<open>NaN\<close> is equal to nothing, minus zero is equal to zero); a map, a sequence or a date
  of the document is never the same object as the literal.
\<close>

fun strict_eq :: "jsval \<Rightarrow> jsval \<Rightarrow> bool" where
  "strict_eq (JArr vs) b = False"
| "strict_eq (JObj kvs) b = False"
| "strict_eq (JDate d) b = False"
| "strict_eq (JNum m) b =
     (m \<noteq> NNaN \<and>
      (b = JNum m \<or> (m = NNegZero \<and> b = JNum (NInt 0)) \<or> (m = NInt 0 \<and> b = JNum NNegZero)))"
| "strict_eq a b = (a = b)"

text \<open>
  \<^verbatim>\<open>
  const fail = (item, field, value) => {
    if (!value) {
      if (!item[field]) {
        console.error('Expected', item.metadata.name, 'to have field:', field);
        return true;
      }
      return false;
    }
    if (item[field] !== value) {
      console.error('Expected', item.metadata.name, 'to have field:', field,
                    'with value:', value);
      return true;
    }
    return false;
  };
  \<close>
\<close>

definition fail :: "jsval \<Rightarrow> string \<Rightarrow> jsval \<Rightarrow> bool logged" where
  "fail item field value =
     (if \<not> truthy value then
        bindL (pureL (get item field)) (\<lambda>fv.
        if \<not> truthy fv then
          bindL (pureL (get_path item [''metadata'', ''name''])) (\<lambda>name.
          bindL (console_error [JStr ''Expected'', name, JStr ''to have field:'', JStr field])
            (\<lambda>_. pureL (Inr True)))
        else pureL (Inr False))
      else
        bindL (pureL (get item field)) (\<lambda>fv.
        if \<not> strict_eq fv value then
          bindL (pureL (get_path item [''metadata'', ''name''])) (\<lambda>name.
          bindL (console_error [JStr ''Expected'', name, JStr ''to have field:'', JStr field,
                                JStr ''with value:'', value])
            (\<lambda>_. pureL (Inr True)))
        else pureL (Inr False)))"

text \<open>
  The callback of \<open>.filter\<close> (anonymous in the source, called \<open>keepItem\<close> here); \<open>||\<close>
  does not evaluate its right operand when the left one is true:
  \<^verbatim>\<open>
  (item) => !(fail(item, 'apiVersion', 'kubernetes-client.io/v1') ||
              fail(item, 'kind', 'ExternalSecret') ||
              fail(item, 'spec'))
  \<close>
\<close>

definition keepItem :: "jsval \<Rightarrow> bool logged" where
  "keepItem item =
     bindL (fail item ''apiVersion'' (JStr ''kubernetes-client.io/v1'')) (\<lambda>f1.
     if f1 then pureL (Inr False)
     else bindL (fail item ''kind'' (JStr ''ExternalSecret'')) (\<lambda>f2.
          if f2 then pureL (Inr False)
          else bindL (fail item ''spec'' JUndefined) (\<lambda>f3. pureL (Inr (\<not> f3)))))"

text \<open>\<open>Array.prototype.filter\<close> with a callback that prints and may throw.\<close>

fun filterL :: "('a \<Rightarrow> bool logged) \<Rightarrow> 'a list \<Rightarrow> 'a list logged" where
  "filterL p [] = pureL (Inr [])"
| "filterL p (x # xs) =
     bindL (p x) (\<lambda>b.
     bindL (filterL p xs) (\<lambda>ys.
     pureL (Inr (if b then x # ys else ys))))"

section \<open>Parsing and flattening\<close>

text \<open>
  \<open>Array.prototype.flatMap\<close>: a callback result that is a sequence is spliced into the
  result, one level deep; any other result is one element of it.
\<close>

definition flat1 :: "jsval \<Rightarrow> jsval list" where
  "flat1 v = (case v of JArr xs \<Rightarrow> xs | _ \<Rightarrow> [v])"

fun flatMapE :: "('a \<Rightarrow> error + jsval) \<Rightarrow> 'a list \<Rightarrow> error + jsval list" where
  "flatMapE f [] = Inr []"
| "flatMapE f (x # xs) =
     bindE (f x) (\<lambda>y. bindE (flatMapE f xs) (\<lambda>ys. Inr (flat1 y @ ys)))"

text \<open>
  The inner callback (called \<open>flattenDocument\<close> here):
  \<^verbatim>\<open>
  (parsed) => { if (parsed.items) { return parsed.items; } return parsed; }
  \<close>
\<close>

definition flattenDocument :: "jsval \<Rightarrow> error + jsval" where
  "flattenDocument parsed =
     bindE (get parsed ''items'') (\<lambda>items.
     if truthy items then Inr items else Inr parsed)"

text \<open>
  The outer callback (called \<open>flattenFile\<close> here). Reading and parsing a file are
  external: the input of the model is, for each resolved path in order, what
  \<open>yaml.loadAll(fs.readFileSync(path, 'utf-8'))\<close> returns or throws.
  \<^verbatim>\<open>
  (path) => {
    const documents = yaml.loadAll(fs.readFileSync(path, 'utf-8'));
    return documents.flatMap(...);
  }
  \<close>
\<close>

definition flattenFile :: "error + jsval list \<Rightarrow> error + jsval" where
  "flattenFile loaded =
     bindE loaded (\<lambda>documents.
     bindE (flatMapE flattenDocument documents) (\<lambda>cs. Inr (JArr cs)))"

definition candidates :: "(error + jsval list) list \<Rightarrow> error + jsval list" where
  "candidates loaded_files = flatMapE flattenFile loaded_files"

section \<open>The pipeline\<close>

text \<open>
  \<^verbatim>\<open>
  const esoSecrets = paths.flatMap(...).filter(...).map(cleanKesItem).map((kes) => ...);
  \<close>
  Each stage runs over the whole list before the next one starts.
\<close>

definition convert :: "flags \<Rightarrow> (error + jsval list) list \<Rightarrow> jsval list logged" where
  "convert cfg loaded_files =
     bindL (pureL (candidates loaded_files)) (\<lambda>cands.
     bindL (filterL keepItem cands) (\<lambda>kept.
     bindL (pureL (mapE cleanKesItem kept)) (\<lambda>cleaned.
     pureL (mapE (kesToEso cfg) cleaned))))"

section \<open>Serialization and write\<close>

text \<open>
  The functions of the libraries that the write uses. The YAML text of a resource
  (\<open>yaml.dump\<close>), how a number outside the safe integers prints
  (\<open>Number.prototype.toString\<close>), how a date prints in the local time zone
  (\<open>Date.prototype.toString\<close>) and the working directory of the process
  (\<open>process.cwd()\<close>) are parameters.
\<close>

record env =
  yaml_dump :: "jsval \<Rightarrow> error + string"
  number_string :: "number \<Rightarrow> string"
  date_string :: "string \<Rightarrow> string"
  cwd :: string

text \<open>The decimal digits of a natural number.\<close>

fun digits :: "nat \<Rightarrow> string" where
  "digits n =
     (if n < 10 then [char_of (48 + n)]
      else digits (n div 10) @ [char_of (48 + n mod 10)])"

declare digits.simps [simp del]

text \<open>
  How a number prints: an integer below \<open>2^53\<close> in absolute value prints as its decimal
  digits; the printing of any other finite number is the library's.
\<close>

definition number_to_string :: "env \<Rightarrow> number \<Rightarrow> string" where
  "number_to_string ext n =
     (case n of
        NInt i \<Rightarrow>
          if \<bar>i\<bar> < 2 ^ 53
          then (if i < 0 then ''-'' @ digits (nat (- i)) else digits (nat i))
          else number_string ext n
      | NNegZero \<Rightarrow> ''0''
      | NNaN \<Rightarrow> ''NaN''
      | NInf \<Rightarrow> ''Infinity''
      | NNegInf \<Rightarrow> ''-Infinity''
      | NFrac k \<Rightarrow> number_string ext n)"

text \<open>\<open>Array.prototype.join\<close> on strings.\<close>

fun join :: "string \<Rightarrow> string list \<Rightarrow> string" where
  "join sep [] = []"
| "join sep [s] = s"
| "join sep (s # t # ss) = s @ sep @ join sep (t # ss)"

text \<open>
  The string that a template literal \<open>`${v}`\<close> makes of a value. A sequence is its
  elements joined by commas, with \<open>null\<close> and \<open>undefined\<close> as the empty string. A map
  is \<open>[object Object]\<close>, the result of \<open>Object.prototype.toString\<close>, unless it has a key
  \<open>toString\<close> of its own: the value of that key is not a function (no value of a
  document is), the inherited \<open>valueOf\<close> returns the map itself, and the conversion
  throws a \<open>TypeError\<close>.
\<close>

fun to_string :: "env \<Rightarrow> jsval \<Rightarrow> error + string"
  and to_strings :: "env \<Rightarrow> jsval list \<Rightarrow> error + string list"
where
  "to_string ext JUndefined = Inr ''undefined''"
| "to_string ext JNull = Inr ''null''"
| "to_string ext (JBool b) = Inr (if b then ''true'' else ''false'')"
| "to_string ext (JNum n) = Inr (number_to_string ext n)"
| "to_string ext (JStr s) = Inr s"
| "to_string ext (JDate d) = Inr (date_string ext d)"
| "to_string ext (JArr vs) = bindE (to_strings ext vs) (\<lambda>ss. Inr (join '','' ss))"
| "to_string ext (JObj kvs) =
     (if map_of kvs ''toString'' \<noteq> None then Inl TypeError else Inr ''[object Object]'')"
| "to_strings ext [] = Inr []"
| "to_strings ext (v # vs) =
     bindE (if v = JUndefined \<or> v = JNull then Inr [] else to_string ext v) (\<lambda>s.
     bindE (to_strings ext vs) (\<lambda>ss. Inr (s # ss)))"

text \<open>
  \<open>path.resolve\<close> of the POSIX \<open>path\<close> module. It goes through its arguments from
  the right, and then the working directory, until the path built so far is absolute;
  an argument it reaches that is not a string makes it throw a \<open>TypeError\<close>, an empty
  one is skipped:
  \<^verbatim>\<open>
  for (let i = args.length - 1; i >= -1 && !resolvedAbsolute; i--) {
    const path = i >= 0 ? args[i] : posixCwd();
    validateString(path, `paths[${i}]`);
    if (path.length === 0) { continue; }
    resolvedPath = `${path}/${resolvedPath}`;
    resolvedAbsolute = path.charCodeAt(0) === CHAR_FORWARD_SLASH;
  }
  resolvedPath = normalizeString(resolvedPath, !resolvedAbsolute, '/', isPosixPathSeparator);
  if (resolvedAbsolute) { return `/${resolvedPath}`; }
  return resolvedPath.length > 0 ? resolvedPath : '.';
  \<close>
\<close>

fun resolve_loop :: "jsval list \<Rightarrow> string \<Rightarrow> error + string \<times> bool" where
  "resolve_loop [] resolvedPath = Inr (resolvedPath, False)"
| "resolve_loop (p # ps) resolvedPath =
     (case p of
        JStr path \<Rightarrow>
          if path = [] then resolve_loop ps resolvedPath
          else if hd path = CHR ''/'' then Inr (path @ ''/'' @ resolvedPath, True)
          else resolve_loop ps (path @ ''/'' @ resolvedPath)
      | _ \<Rightarrow> Inl TypeError)"

text \<open>The segments of a path: the strings between its slashes.\<close>

fun split_on :: "char \<Rightarrow> string \<Rightarrow> string list" where
  "split_on c [] = [[]]"
| "split_on c (x # xs) =
     (if x = c then [] # split_on c xs
      else (case split_on c xs of [] \<Rightarrow> [[x]] | s # ss \<Rightarrow> (x # s) # ss))"

text \<open>
  \<open>normalizeString\<close> goes through the segments from the left and keeps the segments of
  the result, the last one first: an empty segment and \<open>.\<close> are dropped; \<open>..\<close> removes
  the last segment kept, unless there is none or it is \<open>..\<close> itself, in which case \<open>..\<close>
  is kept when the path may go above its root and dropped when it may not.
\<close>

definition norm_step :: "bool \<Rightarrow> string list \<Rightarrow> string \<Rightarrow> string list" where
  "norm_step allowAboveRoot res seg =
     (if seg = [] \<or> seg = ''.'' then res
      else if seg = ''..'' then
        (if res \<noteq> [] \<and> hd res \<noteq> ''..'' then tl res
         else if allowAboveRoot then ''..'' # res else res)
      else seg # res)"

definition normalizeString :: "string \<Rightarrow> bool \<Rightarrow> string" where
  "normalizeString path allowAboveRoot =
     join ''/'' (rev (foldl (norm_step allowAboveRoot) [] (split_on CHR ''/'' path)))"

definition path_resolve :: "string \<Rightarrow> jsval list \<Rightarrow> error + string" where
  "path_resolve working args =
     bindE (resolve_loop (rev args @ [JStr working]) []) (\<lambda>(resolvedPath, resolvedAbsolute).
     let resolvedPath = normalizeString resolvedPath (\<not> resolvedAbsolute) in
     Inr (if resolvedAbsolute then ''/'' @ resolvedPath
          else if resolvedPath \<noteq> [] then resolvedPath else ''.''))"

text \<open>
  \<open>path.dirname\<close> of the POSIX \<open>path\<close> module: the path up to the slash before its
  last segment, trailing slashes not counted.
  \<^verbatim>\<open>
  if (path.length === 0) { return '.'; }
  const hasRoot = path.charCodeAt(0) === CHAR_FORWARD_SLASH;
  let end = -1;
  let matchedSlash = true;
  for (let i = path.length - 1; i >= 1; --i) {
    if (path.charCodeAt(i) === CHAR_FORWARD_SLASH) {
      if (!matchedSlash) { end = i; break; }
    } else { matchedSlash = false; }
  }
  if (end === -1) { return hasRoot ? '/' : '.'; }
  if (hasRoot && end === 1) { return '//'; }
  return path.slice(0, end);
  \<close>
\<close>

definition path_dirname :: "string \<Rightarrow> string" where
  "path_dirname path =
     (if path = [] then ''.''
      else
        let hasRoot = (hd path = CHR ''/'');
            r = dropWhile (\<lambda>c. c \<noteq> CHR ''/'')
                  (dropWhile (\<lambda>c. c = CHR ''/'') (rev (tl path)))
        in if r = [] then (if hasRoot then ''/'' else ''.'')
           else if hasRoot \<and> tl r = [] then ''//''
           else hd path # rev (tl r))"

text \<open>
  \<open>mkdirp.sync\<close> makes a directory and those above it that are missing: after the
  call the directory and every directory above it exist. The directories above a path
  are found by taking \<open>path.dirname\<close> until it changes nothing, which it does at \<open>/\<close>
  and at \<open>.\<close>.
\<close>

function parents :: "string \<Rightarrow> string list" where
  "parents d = (if path_dirname d = d then [d] else d # parents (path_dirname d))"
  by pat_completeness auto
termination
proof (relation "measure (\<lambda>d. if d = ''.'' then 0 else Suc (length d))")
  show "wf (measure (\<lambda>d. if d = ''.'' then 0 else Suc (length d)))" by (rule wf_measure)
next
  fix d :: string
  assume differs: "path_dirname d \<noteq> d"
  have "(if path_dirname d = ''.'' then 0 else Suc (length (path_dirname d)))
         < (if d = ''.'' then 0 else Suc (length d))"
  proof (cases d)
    case Nil
    then show ?thesis by (simp add: path_dirname_def)
  next
    case (Cons c cs)
    define q where "q = dropWhile (\<lambda>c. c = CHR ''/'') (rev cs)"
    define r where "r = dropWhile (\<lambda>c. c \<noteq> CHR ''/'') q"
    have p: "path_dirname d =
       (if r = [] then (if c = CHR ''/'' then ''/'' else ''.'')
        else if c = CHR ''/'' \<and> tl r = [] then ''//''
        else c # rev (tl r))"
      unfolding Cons path_dirname_def r_def q_def Let_def
        by (simp only: list.sel list.distinct if_False)
    have lq: "length q \<le> length cs"
      unfolding q_def using length_dropWhile_le [of _ "rev cs"] by simp
    show ?thesis
    proof (cases "r = []")
      case True
      show ?thesis
      proof (cases "c = CHR ''/''")
        case c: True
        with p True have e: "path_dirname d = ''/''" by simp
        with differs Cons c have "cs \<noteq> []" by auto
        with c show ?thesis unfolding e by (simp add: Cons)
      next
        case c: False
        with p True have e: "path_dirname d = ''.''" by simp
        with differs have "d \<noteq> ''.''" by auto
        then show ?thesis unfolding e by simp
      qed
    next
      case False
      then have hr: "hd r = CHR ''/''"
        unfolding r_def using hd_dropWhile [of "\<lambda>c. c \<noteq> CHR ''/''" q] by auto
      from False have qn: "q \<noteq> []" unfolding r_def by auto
      then have hq: "hd q \<noteq> CHR ''/''"
        unfolding q_def using hd_dropWhile [of "\<lambda>c. c = CHR ''/''" "rev cs"] by auto
      have "length r \<le> length q"
        unfolding r_def by (rule length_dropWhile_le)
      moreover have "r \<noteq> q" using hr hq by auto
      moreover have "\<exists>xs. q = xs @ r"
        unfolding r_def by (metis takeWhile_dropWhile_id)
      ultimately have "length r < length q" by auto
      with lq have lr: "length r < length cs" by simp
      from False have tr: "length (tl r) < length r" by (cases r) simp_all
      show ?thesis
      proof (cases "c = CHR ''/'' \<and> tl r = []")
        case True
        with p False have e: "path_dirname d = ''//''" by simp
        from False lr have "length cs > 1" by (cases r) auto
        with True show ?thesis unfolding e by (simp add: Cons)
      next
        case F2: False
        with p False have e: "path_dirname d = c # rev (tl r)" by (simp only: if_False)
        have "Suc (length (c # rev (tl r))) < Suc (length d)"
          using tr lr Cons by simp
        moreover have "d \<noteq> ''.''" using lr Cons by auto
        ultimately show ?thesis unfolding e by simp
      qed
    qed
  qed
  then show "(path_dirname d, d) \<in> measure (\<lambda>d. if d = ''.'' then 0 else Suc (length d))"
    unfolding in_measure .
qed

declare parents.simps [simp del]

definition mkdirp_sync :: "string \<Rightarrow> string set \<Rightarrow> string set" where
  "mkdirp_sync d ds = ds \<union> set (parents d)"

text \<open>
  What the process has printed and written: the lines of \<open>console.log\<close>, the lines of
  \<open>console.error\<close> and \<open>console.warn\<close>, the directories that exist, as far as
  \<open>mkdirp.sync\<close> has seen to it, and the content of each file written.
\<close>

record world =
  stdout :: "message list"
  stderr :: "message list"
  dirs :: "string set"
  files :: "string \<rightharpoonup> string"

text \<open>
  The callback of \<open>forEach\<close> (called \<open>writeSecret\<close> here). Everything in it that can
  throw comes before its first effect, so the path and the text are computed first
  (\<open>outputOf\<close>):
  \<^verbatim>\<open>
  (esoSecret) => {
    const namespace = esoSecret.metadata.namespace || 'default';
    const output = yaml.dump(esoSecret);
    const outputPath = path.resolve(out, namespace, `${esoSecret.metadata.name}.yaml`);
    console.log('Writing to', outputPath);
    mkdirp.sync(path.dirname(outputPath));
    fs.writeFileSync(outputPath, output);
  }
  \<close>
\<close>

definition outputOf :: "env \<Rightarrow> flags \<Rightarrow> jsval \<Rightarrow> error + (string \<times> string)" where
  "outputOf ext cfg esoSecret =
     bindE (get_path esoSecret [''metadata'', ''namespace'']) (\<lambda>ns.
     let namespace = (if truthy ns then ns else JStr ''default'') in
     bindE (yaml_dump ext esoSecret) (\<lambda>output.
     bindE (get_path esoSecret [''metadata'', ''name'']) (\<lambda>name.
     bindE (to_string ext name) (\<lambda>file.
     bindE (path_resolve (cwd ext) [JStr (out cfg), namespace, JStr (file @ ''.yaml'')])
       (\<lambda>outputPath.
     Inr (outputPath, output))))))"

definition writeSecret :: "env \<Rightarrow> flags \<Rightarrow> jsval \<Rightarrow> world \<Rightarrow> error option \<times> world" where
  "writeSecret ext cfg esoSecret w =
     (case outputOf ext cfg esoSecret of
        Inl e \<Rightarrow> (Some e, w)
      | Inr (outputPath, output) \<Rightarrow>
          (None, w\<lparr>stdout := stdout w @ [[JStr ''Writing to'', JStr outputPath]],
                   dirs := mkdirp_sync (path_dirname outputPath) (dirs w),
                   files := (files w)(outputPath \<mapsto> output)\<rparr>))"

text \<open>\<open>Array.prototype.forEach\<close> with a callback that changes the world and may throw.\<close>

fun forEachW :: "('a \<Rightarrow> world \<Rightarrow> error option \<times> world) \<Rightarrow> 'a list \<Rightarrow> world
                  \<Rightarrow> error option \<times> world" where
  "forEachW f [] w = (None, w)"
| "forEachW f (x # xs) w =
     (case f x w of
        (Some e, w') \<Rightarrow> (Some e, w')
      | (None, w') \<Rightarrow> forEachW f xs w')"

section \<open>The program\<close>

text \<open>
  How the process ends: with an exit status, or with the error that nothing caught.
  \<^verbatim>\<open>
  if (esoSecrets.length === 0) {
    console.warn('No convertable ExternalSecrets found');
    process.exit(1);
  }
  esoSecrets.forEach(...);
  \<close>
\<close>

datatype ending = Exit nat | Uncaught error

definition run :: "env \<Rightarrow> flags \<Rightarrow> (error + jsval list) list \<Rightarrow> world \<Rightarrow> ending \<times> world" where
  "run ext cfg loaded_files w =
     (case convert cfg loaded_files of
        (ms, Inl e) \<Rightarrow> (Uncaught e, w\<lparr>stderr := stderr w @ ms\<rparr>)
      | (ms, Inr esoSecrets) \<Rightarrow>
          let w1 = w\<lparr>stderr := stderr w @ ms\<rparr> in
          if length esoSecrets = 0
          then (Exit 1, w1\<lparr>stderr := stderr w1 @ [[JStr ''No convertable ExternalSecrets found'']]\<rparr>)
          else (case forEachW (writeSecret ext cfg) esoSecrets w1 of
                  (Some e, w2) \<Rightarrow> (Uncaught e, w2)
                | (None, w2) \<Rightarrow> (Exit 0, w2)))"

section \<open>The eligibility rule and its diagnostic, in the words of the specification\<close>

text \<open>
  A candidate is eligible when its \<open>apiVersion\<close> is exactly \<open>kubernetes-client.io/v1\<close>,
  its \<open>kind\<close> is exactly \<open>ExternalSecret\<close> and its \<open>spec\<close> is truthy.
\<close>

definition eligible :: "jsval \<Rightarrow> bool" where
  "eligible item \<longleftrightarrow>
     get item ''apiVersion'' = Inr (JStr ''kubernetes-client.io/v1'') \<and>
     get item ''kind'' = Inr (JStr ''ExternalSecret'') \<and>
     (case get item ''spec'' of Inl e \<Rightarrow> False | Inr s \<Rightarrow> truthy s)"

text \<open>
  The diagnostic for a candidate that is not eligible: the resource name, the first field
  that fails and, for \<open>apiVersion\<close> and \<open>kind\<close>, the value expected.
\<close>

definition diagnostic :: "jsval \<Rightarrow> jsval \<Rightarrow> message" where
  "diagnostic item name =
     (if get item ''apiVersion'' \<noteq> Inr (JStr ''kubernetes-client.io/v1'')
      then [JStr ''Expected'', name, JStr ''to have field:'', JStr ''apiVersion'',
            JStr ''with value:'', JStr ''kubernetes-client.io/v1'']
      else if get item ''kind'' \<noteq> Inr (JStr ''ExternalSecret'')
      then [JStr ''Expected'', name, JStr ''to have field:'', JStr ''kind'',
            JStr ''with value:'', JStr ''ExternalSecret'']
      else [JStr ''Expected'', name, JStr ''to have field:'', JStr ''spec''])"

section \<open>What a parsed document contributes\<close>

text \<open>
  What one parsed document contributes to the candidates: a sequence contributes its
  elements; a map whose \<open>items\<close> is a sequence contributes the elements of \<open>items\<close>, a
  map whose \<open>items\<close> is any other truthy value contributes that value, and a map without
  truthy \<open>items\<close> contributes itself; a scalar contributes itself.
\<close>

definition contribution :: "jsval \<Rightarrow> jsval list" where
  "contribution d =
     (case d of
        JArr xs \<Rightarrow> xs
      | JObj kvs \<Rightarrow>
          (case lookup kvs ''items'' of
             JArr ys \<Rightarrow> ys
           | v \<Rightarrow> if truthy v then [v] else [d])
      | _ \<Rightarrow> [d])"

section \<open>The output path, in the words of the specification\<close>



section \<open>Concrete inputs\<close>

text \<open>
  To run the model on concrete inputs: a world in which nothing has been printed or
  written, and stand-ins for the parameters. The dump prints the store name of the
  resource, every number outside the safe integers prints as \<open>1e+21\<close>, a date prints
  as its ISO string, and the working directory is \<open>/work\<close>.
\<close>

definition empty_world :: world where
  "empty_world = \<lparr>stdout = [], stderr = [], dirs = {}, files = Map.empty\<rparr>"

definition example_env :: env where
  "example_env =
     \<lparr>yaml_dump = (\<lambda>v. bindE (get_path v [''spec'', ''secretStoreRef'', ''name''])
                           (\<lambda>n. Inr (''store: '' @ (case n of JStr s \<Rightarrow> s | _ \<Rightarrow> ''undefined'')))),
      number_string = (\<lambda>n. ''1e+21''),
      date_string = (\<lambda>d. d),
      cwd = ''/work''\<rparr>"

section \<open>Cleaning, in the words of the specification\<close>

text \<open>
  What the YAML parser returns: a tree in which \<open>undefined\<close> does not occur.
\<close>

fun yaml_value :: "jsval \<Rightarrow> bool" where
  "yaml_value JUndefined = False"
| "yaml_value (JArr vs) = (\<forall>v \<in> set vs. yaml_value v)"
| "yaml_value (JObj kvs) = (\<forall>(k, v) \<in> set kvs. yaml_value v)"
| "yaml_value v = True"

text \<open>
  A value that a JSON copy leaves as it is: a tree without \<open>undefined\<close>, dates, \<open>NaN\<close>,
  infinities and minus zero.
\<close>

fun json_stable :: "jsval \<Rightarrow> bool" where
  "json_stable JUndefined = False"
| "json_stable (JDate d) = False"
| "json_stable (JNum n) = (n \<noteq> NNaN \<and> n \<noteq> NInf \<and> n \<noteq> NNegInf \<and> n \<noteq> NNegZero)"
| "json_stable (JArr vs) = (\<forall>v \<in> set vs. json_stable v)"
| "json_stable (JObj kvs) = (\<forall>(k, v) \<in> set kvs. json_stable v)"
| "json_stable v = True"

text \<open>The fields that the server manages, removed from \<open>metadata\<close>.\<close>

definition managed_fields :: "string list" where
  "managed_fields =
     [''creationTimestamp'', ''generation'', ''resourceVersion'', ''uid'', ''selfLink'']"

definition last_applied :: string where
  "last_applied = ''kubectl.kubernetes.io/last-applied-configuration''"

text \<open>A value without the given keys: a map loses them, any other value is left as it is.\<close>

definition without :: "string list \<Rightarrow> jsval \<Rightarrow> jsval" where
  "without ks v =
     (case v of JObj kvs \<Rightarrow> JObj (filter (\<lambda>(k, w). k \<notin> set ks) kvs) | _ \<Rightarrow> v)"

text \<open>
  The cleaned \<open>metadata\<close>: without the managed fields, and with its \<open>annotations\<close>, when
  there are any, without the last-applied configuration.
\<close>

definition cleaned_metadata :: "jsval \<Rightarrow> jsval" where
  "cleaned_metadata m =
     (let m' = without managed_fields m in
      case get m' ''annotations'' of
        Inr a \<Rightarrow> if a = JUndefined \<or> a = JNull then m'
                 else store m' ''annotations'' (without [last_applied] a)
      | Inl e \<Rightarrow> m')"

text \<open>The cleaned resource: the cleaned \<open>metadata\<close>, and no \<open>status\<close>.\<close>

definition cleaned :: "jsval \<Rightarrow> jsval" where
  "cleaned item =
     (case get item ''metadata'' of
        Inr m \<Rightarrow> without [''status''] (store item ''metadata'' (cleaned_metadata m))
      | Inl e \<Rightarrow> item)"

section \<open>The heap: objects by reference\<close>

text \<open>
  Cleaning deletes properties in place, so whether it changes the parsed document
  depends on which objects the copy shares with it. For this the objects are put in a
  heap: a map or a sequence is a cell at an address, and a value is a scalar, a date or
  a reference to a cell. The YAML parser may return the same object in several places
  (an alias refers to the object of its anchor), so a parsed document need not be a
  tree in the heap.
\<close>

type_synonym addr = nat

datatype hval =
  HUndefined | HNull | HBool bool | HNum number | HStr string | HDate string | HRef addr

datatype cell = CArr "hval list" | CObj "(string \<times> hval) list"

type_synonym heap = "cell list"

text \<open>
  The tree that a value denotes, read with fuel: following more than \<open>n\<close> references
  in a row gives \<open>None\<close>, as does a reference beyond the heap.
\<close>

fun read :: "nat \<Rightarrow> heap \<Rightarrow> hval \<Rightarrow> jsval option" where
  "read n h HUndefined = Some JUndefined"
| "read n h HNull = Some JNull"
| "read n h (HBool b) = Some (JBool b)"
| "read n h (HNum i) = Some (JNum i)"
| "read n h (HStr s) = Some (JStr s)"
| "read 0 h (HRef a) = None"
| "read (Suc n) h (HRef a) =
     (if a < length h then
        (case h ! a of
           CArr vs \<Rightarrow> map_option JArr (those (map (read n h) vs))
         | CObj kvs \<Rightarrow>
             map_option JObj (those (map (\<lambda>(k, v). map_option (Pair k) (read n h v)) kvs)))
      else None)"
| "read n h (HDate d) = Some (JDate d)"

text \<open>
  \<open>JSON.stringify\<close> walks the value and throws a \<open>TypeError\<close> on a cycle. A walk
  without a cycle follows at most as many references in a row as the heap has cells.
\<close>

definition stringify :: "heap \<Rightarrow> hval \<Rightarrow> error + jsval" where
  "stringify h v = (case read (Suc (length h)) h v of None \<Rightarrow> Inl TypeError | Some t \<Rightarrow> Inr t)"

text \<open>
  A set of cells loops when every cell in it holds a reference to a cell in it: from
  such a cell the walk never ends.
\<close>

fun cell_values :: "cell \<Rightarrow> hval list" where
  "cell_values (CArr vs) = vs"
| "cell_values (CObj kvs) = map snd kvs"

definition loops :: "heap \<Rightarrow> addr set \<Rightarrow> bool" where
  "loops h C \<longleftrightarrow> (\<forall>a \<in> C. \<exists>b \<in> C. HRef b \<in> set (cell_values (h ! a)))"

text \<open>
  \<open>JSON.parse\<close> builds its result from new objects only: every map and sequence of
  the tree gets a new cell at the end of the heap, the cells of its parts first.
\<close>

fun alloc :: "jsval \<Rightarrow> heap \<Rightarrow> hval \<times> heap"
  and alloc_list :: "jsval list \<Rightarrow> heap \<Rightarrow> hval list \<times> heap"
  and alloc_fields :: "(string \<times> jsval) list \<Rightarrow> heap \<Rightarrow> (string \<times> hval) list \<times> heap"
where
  "alloc JUndefined h = (HUndefined, h)"
| "alloc JNull h = (HNull, h)"
| "alloc (JBool b) h = (HBool b, h)"
| "alloc (JNum i) h = (HNum i, h)"
| "alloc (JStr s) h = (HStr s, h)"
| "alloc (JArr ts) h = (case alloc_list ts h of (vs, h') \<Rightarrow> (HRef (length h'), h' @ [CArr vs]))"
| "alloc (JObj kts) h =
     (case alloc_fields kts h of (kvs, h') \<Rightarrow> (HRef (length h'), h' @ [CObj kvs]))"
| "alloc_list [] h = ([], h)"
| "alloc_list (t # ts) h =
     (case alloc t h of (v, h1) \<Rightarrow>
      case alloc_list ts h1 of (vs, h2) \<Rightarrow> (v # vs, h2))"
| "alloc_fields [] h = ([], h)"
| "alloc_fields ((k, t) # kts) h =
     (case alloc t h of (v, h1) \<Rightarrow>
      case alloc_fields kts h1 of (kvs, h2) \<Rightarrow> ((k, v) # kvs, h2))"
| "alloc (JDate d) h = (HDate d, h)"

text \<open>
  The property read and \<open>delete\<close> on the heap. A reference of a program always points
  into the heap; the model answers a reference beyond it with a \<open>TypeError\<close>.
\<close>

definition hlookup :: "(string \<times> hval) list \<Rightarrow> string \<Rightarrow> hval" where
  "hlookup kvs k = (case map_of kvs k of None \<Rightarrow> HUndefined | Some v \<Rightarrow> v)"

definition hget :: "heap \<Rightarrow> hval \<Rightarrow> string \<Rightarrow> error + hval" where
  "hget h v k =
     (case v of
        HUndefined \<Rightarrow> Inl TypeError
      | HNull \<Rightarrow> Inl TypeError
      | HRef a \<Rightarrow>
          if a < length h
          then (case h ! a of CObj kvs \<Rightarrow> Inr (hlookup kvs k) | CArr vs \<Rightarrow> Inr HUndefined)
          else Inl TypeError
      | _ \<Rightarrow> Inr HUndefined)"

definition hdelete :: "heap \<Rightarrow> hval \<Rightarrow> string \<Rightarrow> error + heap" where
  "hdelete h v k =
     (case v of
        HUndefined \<Rightarrow> Inl TypeError
      | HNull \<Rightarrow> Inl TypeError
      | HRef a \<Rightarrow>
          if a < length h
          then (case h ! a of
                  CObj kvs \<Rightarrow> Inr (h[a := CObj (filter (\<lambda>(k', w). k' \<noteq> k) kvs)])
                | CArr vs \<Rightarrow> Inr h)
          else Inl TypeError
      | _ \<Rightarrow> Inr h)"

text \<open>\<open>delete copy.f[k]\<close> and \<open>delete copy.metadata.annotations?.[k]\<close>\<close>

definition hdelete_in :: "heap \<Rightarrow> hval \<Rightarrow> string \<Rightarrow> string \<Rightarrow> error + heap" where
  "hdelete_in h copy f k = bindE (hget h copy f) (\<lambda>m. hdelete h m k)"

definition hdelete_annotation :: "heap \<Rightarrow> hval \<Rightarrow> string \<Rightarrow> error + heap" where
  "hdelete_annotation h copy k =
     bindE (hget h copy ''metadata'') (\<lambda>m.
     bindE (hget h m ''annotations'') (\<lambda>a.
     if a = HUndefined \<or> a = HNull then Inr h else hdelete h a k))"

text \<open>
  \<open>cleanKesItem\<close> on the heap, statement by statement: it returns the reference to the
  copy and the heap after the deletions.
\<close>

definition cleanKesItem_heap :: "heap \<Rightarrow> hval \<Rightarrow> error + (hval \<times> heap)" where
  "cleanKesItem_heap h item =
     bindE (stringify h item) (\<lambda>t.
     bindE (json_roundtrip t) (\<lambda>t'.
     case alloc t' h of (copy, h) \<Rightarrow>
     bindE (hdelete_in h copy ''metadata'' ''creationTimestamp'') (\<lambda>h.
     bindE (hdelete_in h copy ''metadata'' ''generation'') (\<lambda>h.
     bindE (hdelete_in h copy ''metadata'' ''resourceVersion'') (\<lambda>h.
     bindE (hdelete_in h copy ''metadata'' ''uid'') (\<lambda>h.
     bindE (hdelete_in h copy ''metadata'' ''selfLink'') (\<lambda>h.
     bindE (hdelete_annotation h copy ''kubectl.kubernetes.io/last-applied-configuration'') (\<lambda>h.
     bindE (hdelete h copy ''status'') (\<lambda>h.
     Inr (copy, h))))))))))"

text \<open>
  A value that is the root of a tree in the heap: \<open>rep h v t F\<close> says that \<open>v\<close> denotes
  \<open>t\<close> through the cells at the addresses \<open>F\<close>, each of which is reached once.
\<close>

inductive rep :: "heap \<Rightarrow> hval \<Rightarrow> jsval \<Rightarrow> addr set \<Rightarrow> bool"
  and rep_list :: "heap \<Rightarrow> hval list \<Rightarrow> jsval list \<Rightarrow> addr set \<Rightarrow> bool"
  and rep_fields :: "heap \<Rightarrow> (string \<times> hval) list \<Rightarrow> (string \<times> jsval) list \<Rightarrow> addr set \<Rightarrow> bool"
where
  rep_undefined: "rep h HUndefined JUndefined {}"
| rep_null: "rep h HNull JNull {}"
| rep_bool: "rep h (HBool b) (JBool b) {}"
| rep_num: "rep h (HNum i) (JNum i) {}"
| rep_str: "rep h (HStr s) (JStr s) {}"
| rep_date: "rep h (HDate d) (JDate d) {}"
| rep_arr: "a < length h \<Longrightarrow> h ! a = CArr vs \<Longrightarrow> rep_list h vs ts F \<Longrightarrow> a \<notin> F
            \<Longrightarrow> rep h (HRef a) (JArr ts) (insert a F)"
| rep_obj: "a < length h \<Longrightarrow> h ! a = CObj kvs \<Longrightarrow> rep_fields h kvs kts F \<Longrightarrow> a \<notin> F
            \<Longrightarrow> rep h (HRef a) (JObj kts) (insert a F)"
| rep_list_nil: "rep_list h [] [] {}"
| rep_list_cons: "rep h v t F \<Longrightarrow> rep_list h vs ts G \<Longrightarrow> F \<inter> G = {}
                  \<Longrightarrow> rep_list h (v # vs) (t # ts) (F \<union> G)"
| rep_fields_nil: "rep_fields h [] [] {}"
| rep_fields_cons: "rep h v t F \<Longrightarrow> rep_fields h kvs kts G \<Longrightarrow> F \<inter> G = {}
                    \<Longrightarrow> rep_fields h ((k, v) # kvs) ((k, t) # kts) (F \<union> G)"

section \<open>Basic facts\<close>

lemma bindE_Inl [simp]: "bindE (Inl e) f = Inl e"
  by (simp add: bindE_def)

lemma bindE_Inr [simp]: "bindE (Inr x) f = f x"
  by (simp add: bindE_def)

lemma bindE_eq_Inr: "bindE m f = Inr y \<longleftrightarrow> (\<exists>x. m = Inr x \<and> f x = Inr y)"
  by (cases m) simp_all

lemma lookup_Nil [simp]: "lookup [] k = JUndefined"
  by (simp add: lookup_def)

lemma lookup_Cons [simp]: "lookup ((k', v) # kvs) k = (if k' = k then v else lookup kvs k)"
  by (simp add: lookup_def)

lemma lookup_set_prop: "lookup (set_prop kvs k v) k' = (if k' = k then v else lookup kvs k')"
  by (induction kvs) auto

lemma mapE_total: "(\<And>x. x \<in> set xs \<Longrightarrow> f x = Inr (g x)) \<Longrightarrow> mapE f xs = Inr (map g xs)"
  by (induction xs) simp_all

lemma get_Inl_iff: "get v k = Inl e \<longleftrightarrow> (v = JUndefined \<or> v = JNull) \<and> e = TypeError"
  by (cases v) auto

lemma get_Inr_ex: "v \<noteq> JUndefined \<Longrightarrow> v \<noteq> JNull \<Longrightarrow> \<exists>w. get v k = Inr w"
  by (cases v) auto

lemma get_same_domain: "get v k = Inr w \<Longrightarrow> \<exists>w'. get v k' = Inr w'"
  by (cases v) auto

subsection \<open>Remote references\<close>

lemma createRemoteRef_key_only: "createRemoteRef (JObj [(''key'', e)]) = Inr (JObj [(''key'', e)])"
  by (simp add: createRemoteRef_def)

lemma convertDataFrom_JArr:
  "convertDataFrom (JArr xs) = Inr (JArr (map (\<lambda>e. JObj [(''key'', e)]) xs))"
  by (simp add: convertDataFrom_def createRemoteRef_key_only mapE_total)

text \<open>The reads of a reference throw only on \<open>undefined\<close> and \<open>null\<close>.\<close>

lemma createRemoteRef_defined:
  assumes "v \<noteq> JUndefined" and "v \<noteq> JNull"
  shows "\<exists>r. createRemoteRef v = Inr r"
proof -
  obtain a b c d e where "get v ''key'' = Inr a" "get v ''version'' = Inr b"
    "get v ''versionId'' = Inr c" "get v ''versionStage'' = Inr d" "get v ''property'' = Inr e"
    using get_Inr_ex [OF assms] by metis
  then show ?thesis by (simp add: createRemoteRef_def Let_def)
qed

lemma convertData_defined:
  assumes "list_all (\<lambda>x. x \<noteq> JUndefined \<and> x \<noteq> JNull) items"
  shows "\<exists>d. convertData (JArr items) = Inr d"
proof -
  have "\<exists>ys. mapE (\<lambda>dataItem.
                   bindE (get dataItem ''name'') (\<lambda>name.
                   bindE (createRemoteRef dataItem) (\<lambda>remoteRef.
                   Inr (JObj [(''secretKey'', name), (''remoteRef'', remoteRef)])))) items = Inr ys"
    using assms
  proof (induction items)
    case Nil
    then show ?case by simp
  next
    case (Cons x items)
    then obtain n r where "get x ''name'' = Inr n" "createRemoteRef x = Inr r"
      using get_Inr_ex [of x "''name''"] createRemoteRef_defined [of x] by auto
    with Cons show ?case by auto
  qed
  then show ?thesis by (auto simp: convertData_def)
qed

subsection \<open>Transformation\<close>

lemma step_lookup_other:
  "(if c then bindE m (\<lambda>d. Inr (set_prop s k d)) else Inr s) = Inr s' \<Longrightarrow> k' \<noteq> k
   \<Longrightarrow> lookup s' k' = lookup s k'"
  by (cases c; cases m) (auto simp: lookup_set_prop)

lemma step_lookup_same:
  "(if c then bindE m (\<lambda>d. Inr (set_prop s k d)) else Inr s) = Inr s'
   \<Longrightarrow> (if c then m = Inr (lookup s' k) else lookup s' k = lookup s k)"
  by (cases c; cases m) (auto simp: lookup_set_prop)

lemma kesToEso_steps:
  assumes "kesToEso cfg kes = Inr eso"
  shows "\<exists>metadata spec bt tpl dat dfr s0 s1 s2.
    get kes ''metadata'' = Inr metadata \<and> get kes ''spec'' = Inr spec \<and>
    get spec ''backendType'' = Inr bt \<and> get spec ''template'' = Inr tpl \<and>
    get spec ''data'' = Inr dat \<and> get spec ''dataFrom'' = Inr dfr \<and>
    s0 = (if truthy tpl
          then set_prop [(''refreshInterval'', JStr (refreshInterval cfg)),
                         (''secretStoreRef'',
                            JObj [(''name'', bt),
                                  (''kind'', JStr (if cluster cfg then ''ClusterSecretStore''
                                                   else ''SecretStore''))])]
                 ''target'' (JObj [(''template'', tpl)])
          else [(''refreshInterval'', JStr (refreshInterval cfg)),
                (''secretStoreRef'',
                   JObj [(''name'', bt),
                         (''kind'', JStr (if cluster cfg then ''ClusterSecretStore''
                                          else ''SecretStore''))])]) \<and>
    (if truthy dat then bindE (convertData dat) (\<lambda>d. Inr (set_prop s0 ''data'' d))
     else Inr s0) = Inr s1 \<and>
    (if truthy dfr then bindE (convertDataFrom dfr) (\<lambda>d. Inr (set_prop s1 ''dataFrom'' d))
     else Inr s1) = Inr s2 \<and>
    eso = JObj [(''apiVersion'', JStr ''external-secrets.io/v1alpha1''),
                (''kind'', JStr ''ExternalSecret''),
                (''metadata'', metadata),
                (''spec'', JObj s2)]"
  using assms unfolding kesToEso_def Let_def bindE_eq_Inr by blast

text \<open>What a successful transformation has read and built, field by field.\<close>

lemma kesToEso_result:
  assumes "kesToEso cfg kes = Inr eso"
  shows "\<exists>metadata spec bt tpl dat dfr s.
    get kes ''metadata'' = Inr metadata \<and> get kes ''spec'' = Inr spec \<and>
    get spec ''backendType'' = Inr bt \<and> get spec ''template'' = Inr tpl \<and>
    get spec ''data'' = Inr dat \<and> get spec ''dataFrom'' = Inr dfr \<and>
    eso = JObj [(''apiVersion'', JStr ''external-secrets.io/v1alpha1''),
                (''kind'', JStr ''ExternalSecret''),
                (''metadata'', metadata),
                (''spec'', JObj s)] \<and>
    lookup s ''refreshInterval'' = JStr (refreshInterval cfg) \<and>
    lookup s ''secretStoreRef'' =
      JObj [(''name'', bt),
            (''kind'', JStr (if cluster cfg then ''ClusterSecretStore'' else ''SecretStore''))] \<and>
    lookup s ''target'' = (if truthy tpl then JObj [(''template'', tpl)] else JUndefined) \<and>
    (if truthy dat then convertData dat = Inr (lookup s ''data'')
     else lookup s ''data'' = JUndefined) \<and>
    (if truthy dfr then convertDataFrom dfr = Inr (lookup s ''dataFrom'')
     else lookup s ''dataFrom'' = JUndefined)"
proof -
  from kesToEso_steps [OF assms] obtain metadata spec bt tpl dat dfr s0 s1 s2 where
    g: "get kes ''metadata'' = Inr metadata" "get kes ''spec'' = Inr spec"
       "get spec ''backendType'' = Inr bt" "get spec ''template'' = Inr tpl"
       "get spec ''data'' = Inr dat" "get spec ''dataFrom'' = Inr dfr"
    and s0: "s0 = (if truthy tpl
          then set_prop [(''refreshInterval'', JStr (refreshInterval cfg)),
                         (''secretStoreRef'',
                            JObj [(''name'', bt),
                                  (''kind'', JStr (if cluster cfg then ''ClusterSecretStore''
                                                   else ''SecretStore''))])]
                 ''target'' (JObj [(''template'', tpl)])
          else [(''refreshInterval'', JStr (refreshInterval cfg)),
                (''secretStoreRef'',
                   JObj [(''name'', bt),
                         (''kind'', JStr (if cluster cfg then ''ClusterSecretStore''
                                          else ''SecretStore''))])])"
    and s1: "(if truthy dat then bindE (convertData dat) (\<lambda>d. Inr (set_prop s0 ''data'' d))
              else Inr s0) = Inr s1"
    and s2: "(if truthy dfr then bindE (convertDataFrom dfr) (\<lambda>d. Inr (set_prop s1 ''dataFrom'' d))
              else Inr s1) = Inr s2"
    and e: "eso = JObj [(''apiVersion'', JStr ''external-secrets.io/v1alpha1''),
                (''kind'', JStr ''ExternalSecret''),
                (''metadata'', metadata),
                (''spec'', JObj s2)]"
    by blast
  have l0: "lookup s0 ''refreshInterval'' = JStr (refreshInterval cfg)"
    "lookup s0 ''secretStoreRef'' =
      JObj [(''name'', bt),
            (''kind'', JStr (if cluster cfg then ''ClusterSecretStore'' else ''SecretStore''))]"
    "lookup s0 ''target'' = (if truthy tpl then JObj [(''template'', tpl)] else JUndefined)"
    "lookup s0 ''data'' = JUndefined" "lookup s0 ''dataFrom'' = JUndefined"
    unfolding s0 by (simp_all add: lookup_set_prop)
  have l1: "lookup s1 ''refreshInterval'' = lookup s0 ''refreshInterval''"
    "lookup s1 ''secretStoreRef'' = lookup s0 ''secretStoreRef''"
    "lookup s1 ''target'' = lookup s0 ''target''"
    "lookup s1 ''dataFrom'' = lookup s0 ''dataFrom''"
    by (rule step_lookup_other [OF s1], simp)+
  have l2: "lookup s2 ''refreshInterval'' = lookup s1 ''refreshInterval''"
    "lookup s2 ''secretStoreRef'' = lookup s1 ''secretStoreRef''"
    "lookup s2 ''target'' = lookup s1 ''target''"
    "lookup s2 ''data'' = lookup s1 ''data''"
    by (rule step_lookup_other [OF s2], simp)+
  have d1: "if truthy dat then convertData dat = Inr (lookup s2 ''data'')
            else lookup s2 ''data'' = JUndefined"
    using step_lookup_same [OF s1] l2(4) l0(4) by (simp split: if_splits)
  have d2: "if truthy dfr then convertDataFrom dfr = Inr (lookup s2 ''dataFrom'')
            else lookup s2 ''dataFrom'' = JUndefined"
    using step_lookup_same [OF s2] l1(4) l0(5) by (simp split: if_splits)
  have r1: "lookup s2 ''refreshInterval'' = JStr (refreshInterval cfg)"
    using l0(1) l1(1) l2(1) by simp
  have r2: "lookup s2 ''secretStoreRef'' =
      JObj [(''name'', bt),
            (''kind'', JStr (if cluster cfg then ''ClusterSecretStore'' else ''SecretStore''))]"
    using l0(2) l1(2) l2(2) by simp
  have r3: "lookup s2 ''target'' = (if truthy tpl then JObj [(''template'', tpl)] else JUndefined)"
    using l0(3) l1(3) l2(3) by simp
  from g e r1 r2 r3 d1 d2 show ?thesis by blast
qed


text \<open>When the transformation returns a target resource.\<close>

lemma kesToEso_defined:
  assumes "get kes ''spec'' = Inr spec"
    and "get spec ''data'' = Inr dat"
    and "\<not> truthy dat \<or>
         (\<exists>items. dat = JArr items \<and> list_all (\<lambda>x. x \<noteq> JUndefined \<and> x \<noteq> JNull) items)"
    and "get spec ''dataFrom'' = Inr dfr"
    and "\<not> truthy dfr \<or> (\<exists>xs. dfr = JArr xs)"
  shows "\<exists>eso. kesToEso cfg kes = Inr eso"
proof -
  from assms(1) obtain metadata where m: "get kes ''metadata'' = Inr metadata"
    using get_same_domain by blast
  from get_same_domain [OF assms(2)] obtain bt tpl where
    s: "get spec ''backendType'' = Inr bt" "get spec ''template'' = Inr tpl"
    by blast
  have "\<exists>d. truthy dat \<longrightarrow> convertData dat = Inr d"
    using assms(3) convertData_defined by blast
  moreover have "\<exists>d. truthy dfr \<longrightarrow> convertDataFrom dfr = Inr d"
    using assms(5) convertDataFrom_JArr by blast
  ultimately obtain d1 d2 where c: "truthy dat \<longrightarrow> convertData dat = Inr d1"
    "truthy dfr \<longrightarrow> convertDataFrom dfr = Inr d2" by blast
  show ?thesis
    unfolding kesToEso_def m assms(1,2,4) s bindE_Inr Let_def
    using c by (cases "truthy dat"; cases "truthy dfr") simp_all
qed

text \<open>
  C6. For every cleaned resource that the transformation turns into a target resource,
  the target has \<open>apiVersion\<close> \<open>external-secrets.io/v1alpha1\<close> and \<open>kind\<close>
  \<open>ExternalSecret\<close>, \<open>spec.refreshInterval\<close> is the configured string,
  \<open>spec.secretStoreRef.name\<close> is the legacy \<open>spec.backendType\<close> (\<open>undefined\<close> when the
  legacy resource has none: the same read on both sides), and
  \<open>spec.secretStoreRef.kind\<close> is \<open>ClusterSecretStore\<close> when the cluster flag is set and
  \<open>SecretStore\<close> when it is not. And the transformation does return a target resource
  for a resource whose \<open>spec\<close> can be read, whose \<open>spec.data\<close> is falsy or a sequence
  without \<open>undefined\<close> and \<open>null\<close> entries, and whose \<open>spec.dataFrom\<close> is falsy or a
  sequence.
\<close>

theorem kesToEso_fixed_fields:
  "(kesToEso cfg kes = Inr eso \<longrightarrow>
      get eso ''apiVersion'' = Inr (JStr ''external-secrets.io/v1alpha1'')
    \<and> get eso ''kind'' = Inr (JStr ''ExternalSecret'')
    \<and> get_path eso [''spec'', ''refreshInterval''] = Inr (JStr (refreshInterval cfg))
    \<and> get_path eso [''spec'', ''secretStoreRef'', ''name'']
        = get_path kes [''spec'', ''backendType'']
    \<and> get_path eso [''spec'', ''secretStoreRef'', ''kind'']
        = Inr (JStr (if cluster cfg then ''ClusterSecretStore'' else ''SecretStore'')))
   \<and> (get kes ''spec'' = Inr spec \<and> get spec ''data'' = Inr dat
        \<and> get spec ''dataFrom'' = Inr dfr
        \<and> (\<not> truthy dat \<or>
             (\<exists>items. dat = JArr items
                \<and> list_all (\<lambda>x. x \<noteq> JUndefined \<and> x \<noteq> JNull) items))
        \<and> (\<not> truthy dfr \<or> (\<exists>xs. dfr = JArr xs))
      \<longrightarrow> (\<exists>e. kesToEso cfg kes = Inr e))"
proof (intro conjI impI)
  assume h: "kesToEso cfg kes = Inr eso"
  from kesToEso_result [OF h] obtain metadata spec bt s where
    g: "get kes ''spec'' = Inr spec" "get spec ''backendType'' = Inr bt"
    and e: "eso = JObj [(''apiVersion'', JStr ''external-secrets.io/v1alpha1''),
                (''kind'', JStr ''ExternalSecret''),
                (''metadata'', metadata),
                (''spec'', JObj s)]"
    and l: "lookup s ''refreshInterval'' = JStr (refreshInterval cfg)"
      "lookup s ''secretStoreRef'' =
        JObj [(''name'', bt),
              (''kind'', JStr (if cluster cfg then ''ClusterSecretStore'' else ''SecretStore''))]"
    by blast
  show "get eso ''apiVersion'' = Inr (JStr ''external-secrets.io/v1alpha1'')"
    unfolding e by simp
  show "get eso ''kind'' = Inr (JStr ''ExternalSecret'')"
    unfolding e by simp
  show "get_path eso [''spec'', ''refreshInterval''] = Inr (JStr (refreshInterval cfg))"
    unfolding e using l(1) by simp
  show "get_path eso [''spec'', ''secretStoreRef'', ''name'']
        = get_path kes [''spec'', ''backendType'']"
    unfolding e using g l(2) by simp
  show "get_path eso [''spec'', ''secretStoreRef'', ''kind'']
        = Inr (JStr (if cluster cfg then ''ClusterSecretStore'' else ''SecretStore''))"
    unfolding e using l(2) by simp
next
  assume a: "get kes ''spec'' = Inr spec \<and> get spec ''data'' = Inr dat
        \<and> get spec ''dataFrom'' = Inr dfr
        \<and> (\<not> truthy dat \<or>
             (\<exists>items. dat = JArr items
                \<and> list_all (\<lambda>x. x \<noteq> JUndefined \<and> x \<noteq> JNull) items))
        \<and> (\<not> truthy dfr \<or> (\<exists>xs. dfr = JArr xs))"
  then have "get kes ''spec'' = Inr spec" "get spec ''data'' = Inr dat"
    "\<not> truthy dat \<or>
       (\<exists>items. dat = JArr items \<and> list_all (\<lambda>x. x \<noteq> JUndefined \<and> x \<noteq> JNull) items)"
    "get spec ''dataFrom'' = Inr dfr" "\<not> truthy dfr \<or> (\<exists>xs. dfr = JArr xs)"
    by blast+
  then show "\<exists>e. kesToEso cfg kes = Inr e" by (rule kesToEso_defined)
qed

theorem kesToEso_fixed_fields_witness:
  "(\<exists>e. kesToEso default_flags
     (JObj [(''metadata'', JObj [(''name'', JStr ''db'')]),
            (''spec'', JObj [(''backendType'', JStr ''vault''),
                             (''data'', JArr [JObj [(''name'', JStr ''pw''),
                                                    (''key'', JStr ''k'')]])])]) = Inr e)
   \<and> kesToEso default_flags
     (JObj [(''metadata'', JObj [(''name'', JStr ''db'')]),
            (''spec'', JObj [(''backendType'', JStr ''vault''),
                             (''data'', JArr [JObj [(''name'', JStr ''pw''),
                                                    (''key'', JStr ''k'')]])])])
   = Inr (JObj [(''apiVersion'', JStr ''external-secrets.io/v1alpha1''),
                (''kind'', JStr ''ExternalSecret''),
                (''metadata'', JObj [(''name'', JStr ''db'')]),
                (''spec'', JObj [(''refreshInterval'', JStr ''1h''),
                   (''secretStoreRef'', JObj [(''name'', JStr ''vault''),
                                              (''kind'', JStr ''SecretStore'')]),
                   (''data'', JArr [JObj [(''secretKey'', JStr ''pw''),
                                          (''remoteRef'', JObj [(''key'', JStr ''k'')])]])])])
   \<and> get_path (JObj [(''apiVersion'', JStr ''external-secrets.io/v1alpha1''),
                (''kind'', JStr ''ExternalSecret''),
                (''metadata'', JObj [(''name'', JStr ''db'')]),
                (''spec'', JObj [(''refreshInterval'', JStr ''1h''),
                   (''secretStoreRef'', JObj [(''name'', JStr ''vault''),
                                              (''kind'', JStr ''SecretStore'')]),
                   (''data'', JArr [JObj [(''secretKey'', JStr ''pw''),
                                          (''remoteRef'', JObj [(''key'', JStr ''k'')])]])])])
        [''spec'', ''secretStoreRef'', ''name''] = Inr (JStr ''vault'')"
proof -
  let ?kes = "JObj [(''metadata'', JObj [(''name'', JStr ''db'')]),
            (''spec'', JObj [(''backendType'', JStr ''vault''),
                             (''data'', JArr [JObj [(''name'', JStr ''pw''),
                                                    (''key'', JStr ''k'')]])])]"
  let ?spec = "JObj [(''backendType'', JStr ''vault''),
                     (''data'', JArr [JObj [(''name'', JStr ''pw''), (''key'', JStr ''k'')]])]"
  let ?eso = "JObj [(''apiVersion'', JStr ''external-secrets.io/v1alpha1''),
                (''kind'', JStr ''ExternalSecret''),
                (''metadata'', JObj [(''name'', JStr ''db'')]),
                (''spec'', JObj [(''refreshInterval'', JStr ''1h''),
                   (''secretStoreRef'', JObj [(''name'', JStr ''vault''),
                                              (''kind'', JStr ''SecretStore'')]),
                   (''data'', JArr [JObj [(''secretKey'', JStr ''pw''),
                                          (''remoteRef'', JObj [(''key'', JStr ''k'')])]])])]"
  have h: "kesToEso default_flags ?kes = Inr ?eso"
    by (simp add: kesToEso_def default_flags_def convertData_def createRemoteRef_def)
  have c: "get ?kes ''spec'' = Inr ?spec
        \<and> get ?spec ''data'' = Inr (JArr [JObj [(''name'', JStr ''pw''), (''key'', JStr ''k'')]])
        \<and> get ?spec ''dataFrom'' = Inr JUndefined
        \<and> (\<not> truthy (JArr [JObj [(''name'', JStr ''pw''), (''key'', JStr ''k'')]]) \<or>
             (\<exists>items. JArr [JObj [(''name'', JStr ''pw''), (''key'', JStr ''k'')]] = JArr items
                \<and> list_all (\<lambda>x. x \<noteq> JUndefined \<and> x \<noteq> JNull) items))
        \<and> (\<not> truthy JUndefined \<or> (\<exists>xs. JUndefined = JArr xs))"
    by simp
  note t = kesToEso_fixed_fields [of default_flags ?kes ?eso ?spec
      "JArr [JObj [(''name'', JStr ''pw''), (''key'', JStr ''k'')]]" JUndefined]
  from t c have "\<exists>e. kesToEso default_flags ?kes = Inr e" by blast
  moreover from t h have "get_path ?eso [''spec'', ''secretStoreRef'', ''name'']
        = get_path ?kes [''spec'', ''backendType'']" by blast
  then have "get_path ?eso [''spec'', ''secretStoreRef'', ''name''] = Inr (JStr ''vault'')"
    by simp
  ultimately show ?thesis using h by blast
qed

text \<open>
  C5. For every source map, the reference is built (a missing \<open>key\<close> is not rejected:
  the reference then has \<open>key\<close> \<open>undefined\<close>); its \<open>version\<close> is the first truthy
  value among the source's \<open>version\<close>, \<open>versionId\<close>, \<open>versionStage\<close>, in that order,
  and there is no \<open>version\<close> field when none is truthy; its \<open>property\<close> is the source's
  \<open>property\<close> when that is truthy, and there is no \<open>property\<close> field otherwise.
  (\<open>List.find\<close> returns the first element of the list that satisfies the test.)
\<close>

theorem createRemoteRef_fields:
  "createRemoteRef (JObj kvs) =
     Inr (JObj ((''key'', lookup kvs ''key'')
          # (case find truthy [lookup kvs ''version'', lookup kvs ''versionId'',
                               lookup kvs ''versionStage''] of
               None \<Rightarrow> [] | Some v \<Rightarrow> [(''version'', v)])
          @ (if truthy (lookup kvs ''property'')
             then [(''property'', lookup kvs ''property'')] else [])))"
  by (simp add: createRemoteRef_def Let_def)

theorem createRemoteRef_fields_witness:
  "createRemoteRef (JObj [(''versionId'', JStr ''2''), (''version'', JStr ''1''),
                          (''property'', JStr ''p'')])
     = Inr (JObj [(''key'', JUndefined), (''version'', JStr ''1''), (''property'', JStr ''p'')])
   \<and> createRemoteRef (JObj [(''key'', JStr ''k''), (''versionId'', JStr ''2''),
                            (''versionStage'', JStr ''3''), (''property'', JStr '''')])
     = Inr (JObj [(''key'', JStr ''k''), (''version'', JStr ''2'')])"
  using createRemoteRef_fields [of "[(''versionId'', JStr ''2''), (''version'', JStr ''1''),
                                     (''property'', JStr ''p'')]"]
        createRemoteRef_fields [of "[(''key'', JStr ''k''), (''versionId'', JStr ''2''),
                            (''versionStage'', JStr ''3''), (''property'', JStr '''')]"]
  by simp




subsection \<open>Reads\<close>

lemma bindE_Inr_id [simp]: "bindE m Inr = m"
  by (cases m) simp_all

subsection \<open>Printing computations\<close>

lemma bindL_pureL_Inl [simp]: "bindL (pureL (Inl e)) f = ([], Inl e)"
  by (simp add: bindL_def pureL_def)

lemma bindL_pureL_Inr [simp]: "bindL (pureL (Inr x)) f = f x"
  by (cases "f x") (simp add: bindL_def pureL_def)

lemma bindL_Inl [simp]: "bindL (ms, Inl e) f = (ms, Inl e)"
  by (simp add: bindL_def)

lemma bindL_Inr [simp]: "bindL (ms, Inr x) f = (ms @ fst (f x), snd (f x))"
  by (cases "f x") (simp add: bindL_def)

lemma bindL_console_error [simp]: "bindL (console_error args) f = (args # fst (f ()), snd (f ()))"
  by (simp add: console_error_def)

lemma fst_pureL [simp]: "fst (pureL r) = []"
  by (simp add: pureL_def)

lemma snd_pureL [simp]: "snd (pureL r) = r"
  by (simp add: pureL_def)

subsection \<open>The filter\<close>

lemma strict_eq_JStr [simp]: "strict_eq v (JStr s) \<longleftrightarrow> v = JStr s"
  by (cases v) auto

lemma fail_expected:
  "fail item field (JStr (c # cs)) =
     (case get item field of
        Inl e \<Rightarrow> ([], Inl e)
      | Inr fv \<Rightarrow>
          if fv = JStr (c # cs) then ([], Inr False)
          else (case get_path item [''metadata'', ''name''] of
                  Inl e \<Rightarrow> ([], Inl e)
                | Inr name \<Rightarrow>
                    ([[JStr ''Expected'', name, JStr ''to have field:'', JStr field,
                       JStr ''with value:'', JStr (c # cs)]], Inr True)))"
  by (simp add: fail_def pureL_def split: sum.splits)

lemma fail_present:
  "fail item field JUndefined =
     (case get item field of
        Inl e \<Rightarrow> ([], Inl e)
      | Inr fv \<Rightarrow>
          if truthy fv then ([], Inr False)
          else (case get_path item [''metadata'', ''name''] of
                  Inl e \<Rightarrow> ([], Inl e)
                | Inr name \<Rightarrow>
                    ([[JStr ''Expected'', name, JStr ''to have field:'', JStr field]],
                     Inr True)))"
  by (simp add: fail_def pureL_def split: sum.splits)

lemma keepItem_eligible: "eligible item \<Longrightarrow> keepItem item = ([], Inr True)"
  by (auto simp: eligible_def keepItem_def fail_expected fail_present pureL_def
           split: sum.splits)

lemma keepItem_True_eligible: "keepItem item = (ms, Inr True) \<Longrightarrow> eligible item"
  by (auto simp: eligible_def keepItem_def fail_expected fail_present pureL_def
           split: sum.splits if_splits)

lemma keepItem_not_eligible:
  assumes "\<not> eligible item" and "get_path item [''metadata'', ''name''] = Inr name"
  shows "keepItem item = ([diagnostic item name], Inr False)"
proof -
  from assms(2) obtain m where "get item ''metadata'' = Inr m"
    by (cases "get item ''metadata''") simp_all
  from get_same_domain [OF this, of "''apiVersion''"] get_same_domain [OF this, of "''kind''"]
    get_same_domain [OF this, of "''spec''"]
  obtain a k s where g: "get item ''apiVersion'' = Inr a" "get item ''kind'' = Inr k"
    "get item ''spec'' = Inr s"
    by blast
  with assms show ?thesis
    by (auto simp: eligible_def diagnostic_def keepItem_def fail_expected fail_present pureL_def)
qed

lemma keepItem_throws:
  assumes "\<not> eligible item" and "get_path item [''metadata'', ''name''] = Inl e"
  shows "keepItem item = ([], Inl TypeError)"
proof (cases "item = JUndefined \<or> item = JNull")
  case True
  then show ?thesis
    by (auto simp: keepItem_def fail_expected)
next
  case False
  then obtain a k s m where g: "get item ''apiVersion'' = Inr a" "get item ''kind'' = Inr k"
    "get item ''spec'' = Inr s" "get item ''metadata'' = Inr m"
    using get_Inr_ex [of item] by metis
  with assms(2) have "get m ''name'' = Inl e" by simp
  with assms g show ?thesis
    by (auto simp: eligible_def keepItem_def fail_expected fail_present pureL_def get_Inl_iff)
qed

lemma filterL_Cons_kept:
  assumes "p x = ([], Inr True)"
  shows "filterL p (x # xs) = (fst (filterL p xs), map_sum id ((#) x) (snd (filterL p xs)))"
proof (cases "filterL p xs")
  case (Pair ms' r)
  with assms show ?thesis by (cases r) (simp_all add: pureL_def)
qed

lemma filterL_Cons_dropped:
  assumes "p x = (ms, Inr False)"
  shows "filterL p (x # xs) = (ms @ fst (filterL p xs), snd (filterL p xs))"
proof (cases "filterL p xs")
  case (Pair ms' r)
  with assms show ?thesis by (cases r) (simp_all add: pureL_def)
qed

lemma filterL_Cons_throws: "p x = (ms, Inl e) \<Longrightarrow> filterL p (x # xs) = (ms, Inl e)"
  by simp


text \<open>
  C4, as the code has it. A candidate passes the filter if and only if it is eligible
  (\<open>apiVersion\<close> exactly \<open>kubernetes-client.io/v1\<close>, \<open>kind\<close> exactly
  \<open>ExternalSecret\<close>, \<open>spec\<close> truthy), and then nothing is printed and the candidate
  is kept. A candidate that is not eligible and whose \<open>metadata.name\<close> can be read
  (the candidate and its \<open>metadata\<close> are neither \<open>undefined\<close> nor \<open>null\<close>) is
  dropped, exactly one diagnostic is printed, which names the resource, the first failing
  field and the expected value when there is one, and the filter goes on with the next
  candidate: the rest of the list is filtered as if the candidate had not been there.
\<close>

theorem keepItem_filter:
  "((\<exists>ms. keepItem item = (ms, Inr True)) \<longleftrightarrow> eligible item)
   \<and> (eligible item \<longrightarrow>
        keepItem item = ([], Inr True)
        \<and> filterL keepItem (item # rest)
            = (fst (filterL keepItem rest), map_sum id ((#) item) (snd (filterL keepItem rest))))
   \<and> (\<not> eligible item \<and> get_path item [''metadata'', ''name''] = Inr name \<longrightarrow>
        keepItem item = ([diagnostic item name], Inr False)
        \<and> filterL keepItem (item # rest)
            = (diagnostic item name # fst (filterL keepItem rest),
               snd (filterL keepItem rest)))"
proof (intro conjI impI)
  show "(\<exists>ms. keepItem item = (ms, Inr True)) \<longleftrightarrow> eligible item"
    using keepItem_eligible keepItem_True_eligible by blast
next
  assume "eligible item"
  then show "keepItem item = ([], Inr True)"
    by (rule keepItem_eligible)
  then show "filterL keepItem (item # rest)
            = (fst (filterL keepItem rest), map_sum id ((#) item) (snd (filterL keepItem rest)))"
    by (rule filterL_Cons_kept)
next
  assume a: "\<not> eligible item \<and> get_path item [''metadata'', ''name''] = Inr name"
  then show k: "keepItem item = ([diagnostic item name], Inr False)"
    by (simp add: keepItem_not_eligible)
  show "filterL keepItem (item # rest)
            = (diagnostic item name # fst (filterL keepItem rest),
               snd (filterL keepItem rest))"
    using filterL_Cons_dropped [of keepItem item "[diagnostic item name]" rest] k by simp
qed

theorem keepItem_filter_witness:
  "\<not> eligible (JObj [(''apiVersion'', JStr ''kubernetes-client.io/v1''),
                     (''kind'', JStr ''Secret''),
                     (''metadata'', JObj [(''name'', JStr ''x'')])])
   \<and> get_path (JObj [(''apiVersion'', JStr ''kubernetes-client.io/v1''),
                     (''kind'', JStr ''Secret''),
                     (''metadata'', JObj [(''name'', JStr ''x'')])]) [''metadata'', ''name'']
       = Inr (JStr ''x'')
   \<and> filterL keepItem [JObj [(''apiVersion'', JStr ''kubernetes-client.io/v1''),
                     (''kind'', JStr ''Secret''),
                     (''metadata'', JObj [(''name'', JStr ''x'')])]]
       = ([[JStr ''Expected'', JStr ''x'', JStr ''to have field:'', JStr ''kind'',
            JStr ''with value:'', JStr ''ExternalSecret'']], Inr [])
   \<and> eligible (JObj [(''apiVersion'', JStr ''kubernetes-client.io/v1''),
                     (''kind'', JStr ''ExternalSecret''),
                     (''spec'', JObj [])])
   \<and> filterL keepItem [JObj [(''apiVersion'', JStr ''kubernetes-client.io/v1''),
                     (''kind'', JStr ''ExternalSecret''),
                     (''spec'', JObj [])]]
       = ([], Inr [JObj [(''apiVersion'', JStr ''kubernetes-client.io/v1''),
                     (''kind'', JStr ''ExternalSecret''),
                     (''spec'', JObj [])]])"
proof -
  let ?bad = "JObj [(''apiVersion'', JStr ''kubernetes-client.io/v1''),
                     (''kind'', JStr ''Secret''),
                     (''metadata'', JObj [(''name'', JStr ''x'')])]"
  let ?good = "JObj [(''apiVersion'', JStr ''kubernetes-client.io/v1''),
                     (''kind'', JStr ''ExternalSecret''),
                     (''spec'', JObj [])]"
  have a: "\<not> eligible ?bad" by (simp add: eligible_def)
  have b: "get_path ?bad [''metadata'', ''name''] = Inr (JStr ''x'')" by simp
  have c: "eligible ?good" by (simp add: eligible_def)
  have d: "diagnostic ?bad (JStr ''x'')
           = [JStr ''Expected'', JStr ''x'', JStr ''to have field:'', JStr ''kind'',
              JStr ''with value:'', JStr ''ExternalSecret'']"
    by (simp add: diagnostic_def)
  have n: "filterL keepItem [] = ([], Inr [])" by (simp add: pureL_def)
  from keepItem_filter [of ?bad "[]" "JStr ''x''"] a b
  have "filterL keepItem [?bad] = ([diagnostic ?bad (JStr ''x'')], Inr [])"
    unfolding n by simp
  moreover from keepItem_filter [of ?good "[]" "JStr ''x''"] c
  have "filterL keepItem [?good] = ([], Inr [?good])"
    unfolding n by simp
  ultimately show ?thesis using a b c d by simp
qed

text \<open>
  The claim as written fails on a candidate without \<open>metadata\<close>: the diagnostic itself
  throws, nothing is printed, and the run ends there although an eligible candidate
  follows.
\<close>

theorem keepItem_no_metadata_counterexample:
  "\<not> eligible (JObj [(''kind'', JStr ''Secret'')])
   \<and> keepItem (JObj [(''kind'', JStr ''Secret'')]) = ([], Inl TypeError)
   \<and> convert default_flags
        [Inr [JObj [(''kind'', JStr ''Secret'')],
              JObj [(''apiVersion'', JStr ''kubernetes-client.io/v1''),
                    (''kind'', JStr ''ExternalSecret''),
                    (''metadata'', JObj [(''name'', JStr ''db'')]),
                    (''spec'', JObj [(''backendType'', JStr ''vault'')])]]]
       = ([], Inl TypeError)"
proof -
  have a: "\<not> eligible (JObj [(''kind'', JStr ''Secret'')])"
    by (simp add: eligible_def)
  have b: "keepItem (JObj [(''kind'', JStr ''Secret'')]) = ([], Inl TypeError)"
    by (rule keepItem_throws [OF a, of TypeError]) simp
  show ?thesis
    using a b
    by (simp add: convert_def candidates_def flattenFile_def flattenDocument_def flat1_def)
qed

subsection \<open>Flattening\<close>

lemma flattenDocument_contribution:
  assumes "d \<noteq> JUndefined" "d \<noteq> JNull"
  shows "\<exists>y. flattenDocument d = Inr y \<and> flat1 y = contribution d"
proof (cases d)
  case (JObj kvs)
  then show ?thesis
    by (cases "lookup kvs ''items''")
       (simp_all add: flattenDocument_def contribution_def flat1_def)
qed (use assms in \<open>simp_all add: flattenDocument_def contribution_def flat1_def\<close>)

lemma flattenDocument_nullish:
  "d = JUndefined \<or> d = JNull \<Longrightarrow> flattenDocument d = Inl TypeError"
  by (auto simp: flattenDocument_def)

lemma flatMapE_flattenDocument:
  assumes "\<forall>d \<in> set docs. d \<noteq> JUndefined \<and> d \<noteq> JNull"
  shows "flatMapE flattenDocument docs = Inr (concat (map contribution docs))"
  using assms
proof (induction docs)
  case Nil
  then show ?case by simp
next
  case (Cons d docs)
  then obtain y where "flattenDocument d = Inr y" "flat1 y = contribution d"
    using flattenDocument_contribution [of d] by auto
  with Cons show ?case by simp
qed

lemma flattenFile_Inr:
  assumes "\<forall>d \<in> set docs. d \<noteq> JUndefined \<and> d \<noteq> JNull"
  shows "flattenFile (Inr docs) = Inr (JArr (concat (map contribution docs)))"
  by (simp add: flattenFile_def flatMapE_flattenDocument [OF assms])

lemma flatMapE_flattenFile:
  assumes "\<forall>d \<in> set (concat docss). d \<noteq> JUndefined \<and> d \<noteq> JNull"
  shows "flatMapE flattenFile (map Inr docss) = Inr (concat (map contribution (concat docss)))"
  using assms
proof (induction docss)
  case Nil
  then show ?case by simp
next
  case (Cons docs docss)
  then have "flattenFile (Inr docs) = Inr (JArr (concat (map contribution docs)))"
    by (intro flattenFile_Inr) simp
  with Cons show ?case by (simp add: flat1_def)
qed

text \<open>
  C9, as the code has it. When every file is parsed and no parsed document is \<open>null\<close>
  (or \<open>undefined\<close>), the candidates are the contributions of the documents, one after
  the other, in file order, then document order, then element order: a map whose
  \<open>items\<close> is a sequence contributes the elements of \<open>items\<close>, a map whose \<open>items\<close> is
  missing or falsy contributes itself, a map whose \<open>items\<close> is a truthy value that is
  not a sequence contributes that value, a document that is itself a sequence
  contributes its elements, and a scalar document contributes itself.
\<close>

theorem candidates_contributions:
  assumes "\<forall>d \<in> set (concat docss). d \<noteq> JUndefined \<and> d \<noteq> JNull"
  shows "candidates (map Inr docss) = Inr (concat (map contribution (concat docss)))"
  unfolding candidates_def by (rule flatMapE_flattenFile [OF assms])

theorem candidates_contributions_witness:
  "candidates (map Inr [[JObj [(''kind'', JStr ''List''),
                               (''items'', JArr [JObj [(''kind'', JStr ''A'')],
                                                 JObj [(''kind'', JStr ''B'')]])],
                          JObj [(''kind'', JStr ''C'')]],
                         [JObj [(''kind'', JStr ''D''), (''items'', JNull)]]])
     = Inr [JObj [(''kind'', JStr ''A'')], JObj [(''kind'', JStr ''B'')],
            JObj [(''kind'', JStr ''C'')],
            JObj [(''kind'', JStr ''D''), (''items'', JNull)]]"
proof -
  have a: "\<forall>d \<in> set (concat [[JObj [(''kind'', JStr ''List''),
                               (''items'', JArr [JObj [(''kind'', JStr ''A'')],
                                                 JObj [(''kind'', JStr ''B'')]])],
                          JObj [(''kind'', JStr ''C'')]],
                         [JObj [(''kind'', JStr ''D''), (''items'', JNull)]]]).
      d \<noteq> JUndefined \<and> d \<noteq> JNull"
    by simp
  show ?thesis
    using candidates_contributions [OF a] by (simp add: contribution_def)
qed

text \<open>
  The claim as written fails on a document that is \<open>null\<close> (an empty YAML document),
  on which flattening throws instead of contributing the document; on a document that
  is a sequence, which has no \<open>items\<close> field and contributes its elements, not
  itself; and on a map whose \<open>items\<close> is a string, which contributes the string:
  neither the document itself nor the elements of a sequence.
\<close>

theorem candidates_sequence_counterexample:
  "candidates [Inr [JNull]] = Inl TypeError
   \<and> candidates [Inr [JArr [JStr ''a'', JStr ''b'']]] = Inr [JStr ''a'', JStr ''b'']
   \<and> candidates [Inr [JArr [JStr ''a'', JStr ''b'']]] \<noteq> Inr [JArr [JStr ''a'', JStr ''b'']]
   \<and> candidates [Inr [JObj [(''kind'', JStr ''List''), (''items'', JStr ''x'')]]]
       = Inr [JStr ''x'']
   \<and> candidates [Inr [JObj [(''kind'', JStr ''List''), (''items'', JStr ''x'')]]]
       \<noteq> Inr [JObj [(''kind'', JStr ''List''), (''items'', JStr ''x'')]]"
  by (simp add: candidates_def flattenFile_def flattenDocument_def flat1_def)

subsection \<open>The pipeline\<close>

lemma mapE_length: "mapE f xs = Inr ys \<Longrightarrow> length ys = length xs"
  by (induction xs arbitrary: ys) (auto simp: bindE_eq_Inr)

lemma mapE_Nil_iff: "mapE f xs = Inr [] \<longleftrightarrow> xs = []"
  by (cases xs) (auto simp: bindE_eq_Inr)

lemma convert_eq:
  "convert cfg loaded_files =
     (case candidates loaded_files of
        Inl e \<Rightarrow> ([], Inl e)
      | Inr cands \<Rightarrow>
          (fst (filterL keepItem cands),
           bindE (snd (filterL keepItem cands)) (\<lambda>kept.
           bindE (mapE cleanKesItem kept) (mapE (kesToEso cfg)))))"
proof (cases "candidates loaded_files")
  case (Inl e)
  then show ?thesis by (simp add: convert_def)
next
  case (Inr cands)
  obtain ms r where f: "filterL keepItem cands = (ms, r)" by (cases "filterL keepItem cands")
  show ?thesis
  proof (cases r)
    case (Inl e)
    with Inr f show ?thesis by (simp add: convert_def)
  next
    case r: (Inr kept)
    with Inr f show ?thesis
      by (cases "mapE cleanKesItem kept") (simp_all add: convert_def pureL_def)
  qed
qed

subsection \<open>Writing\<close>




lemma writeSecret_Some:
  "writeSecret ext cfg eso w = (Some e, w') \<longleftrightarrow> outputOf ext cfg eso = Inl e \<and> w' = w"
  by (auto simp: writeSecret_def split: sum.splits)




lemma outputOf_Inr:
  "outputOf ext cfg eso = Inr (p, c) \<longleftrightarrow>
     (\<exists>metadata ns name file.
        get eso ''metadata'' = Inr metadata \<and> get metadata ''namespace'' = Inr ns \<and>
        get metadata ''name'' = Inr name \<and> to_string ext name = Inr file \<and>
        path_resolve (cwd ext) [JStr (out cfg), if truthy ns then ns else JStr ''default'',
                                JStr (file @ ''.yaml'')] = Inr p \<and>
        yaml_dump ext eso = Inr c)"
  by (auto simp: outputOf_def bindE_eq_Inr Let_def)

text \<open>The segments of a path and the strings joined.\<close>

lemma split_on_not_Nil [simp]: "split_on c s \<noteq> []"
  by (induction s) (auto split: list.splits)
















text \<open>
  C7. When no candidate passes the filter, the run prints the warning and ends with
  exit status 1, and the world differs from the one before the run only in what was
  printed on the error stream: no file has been written and no directory made.
  Otherwise the run never ends with exit status 1, and when the kept resources are
  cleaned and transformed and all the writes complete, it ends with exit status 0, one
  target resource per kept candidate having been written.
\<close>

theorem run_exit_status:
  assumes "candidates loaded_files = Inr cands"
    and "filterL keepItem cands = (ms, Inr kept)"
  shows "(kept = [] \<longrightarrow>
            run ext cfg loaded_files w
              = (Exit 1, w\<lparr>stderr := stderr w @ ms
                                @ [[JStr ''No convertable ExternalSecrets found'']]\<rparr>)
            \<and> files (snd (run ext cfg loaded_files w)) = files w
            \<and> dirs (snd (run ext cfg loaded_files w)) = dirs w
            \<and> stdout (snd (run ext cfg loaded_files w)) = stdout w)
       \<and> (kept \<noteq> [] \<longrightarrow>
            fst (run ext cfg loaded_files w) \<noteq> Exit 1
            \<and> (\<forall>esos w'.
                  bindE (mapE cleanKesItem kept) (mapE (kesToEso cfg)) = Inr esos \<and>
                  forEachW (writeSecret ext cfg) esos (w\<lparr>stderr := stderr w @ ms\<rparr>) = (None, w')
                  \<longrightarrow> run ext cfg loaded_files w = (Exit 0, w')
                      \<and> length esos = length kept))"
proof -
  have c: "convert cfg loaded_files
           = (ms, bindE (mapE cleanKesItem kept) (mapE (kesToEso cfg)))"
    using assms by (simp add: convert_eq)
  show ?thesis
  proof (intro conjI impI allI)
    assume "kept = []"
    with c have c': "convert cfg loaded_files = (ms, Inr [])" by simp
    then show r: "run ext cfg loaded_files w
              = (Exit 1, w\<lparr>stderr := stderr w @ ms
                                @ [[JStr ''No convertable ExternalSecrets found'']]\<rparr>)"
      by (simp add: run_def)
    show "files (snd (run ext cfg loaded_files w)) = files w"
      "dirs (snd (run ext cfg loaded_files w)) = dirs w"
      "stdout (snd (run ext cfg loaded_files w)) = stdout w"
      unfolding r by simp_all
  next
    assume k: "kept \<noteq> []"
    show "fst (run ext cfg loaded_files w) \<noteq> Exit 1"
    proof (cases "bindE (mapE cleanKesItem kept) (mapE (kesToEso cfg))")
      case (Inl e)
      with c show ?thesis by (simp add: run_def)
    next
      case (Inr esos)
      then have "length esos = length kept"
        by (auto simp: bindE_eq_Inr dest!: mapE_length)
      with k have "esos \<noteq> []" by auto
      with c Inr show ?thesis
        by (cases "forEachW (writeSecret ext cfg) esos (w\<lparr>stderr := stderr w @ ms\<rparr>)")
           (auto simp: run_def Let_def split: option.splits)
    qed
  next
    fix esos w'
    assume a: "bindE (mapE cleanKesItem kept) (mapE (kesToEso cfg)) = Inr esos \<and>
      forEachW (writeSecret ext cfg) esos (w\<lparr>stderr := stderr w @ ms\<rparr>) = (None, w')"
    assume k: "kept \<noteq> []"
    from a show l: "length esos = length kept"
      by (auto simp: bindE_eq_Inr dest!: mapE_length)
    with k have "esos \<noteq> []" by auto
    with c a show "run ext cfg loaded_files w = (Exit 0, w')"
      by (simp add: run_def Let_def)
  qed
qed


theorem run_exit_status_witness:
  "run example_env default_flags
      [Inr [JObj [(''kind'', JStr ''Secret''), (''metadata'', JObj [(''name'', JStr ''x'')])]]]
      empty_world
     = (Exit 1,
        empty_world\<lparr>stderr :=
          [[JStr ''Expected'', JStr ''x'', JStr ''to have field:'', JStr ''apiVersion'',
            JStr ''with value:'', JStr ''kubernetes-client.io/v1''],
           [JStr ''No convertable ExternalSecrets found'']]\<rparr>)
   \<and> fst (run example_env default_flags
        [Inr [JObj [(''apiVersion'', JStr ''kubernetes-client.io/v1''),
                    (''kind'', JStr ''ExternalSecret''),
                    (''metadata'', JObj [(''name'', JStr ''db''), (''uid'', JStr ''42'')]),
                    (''spec'', JObj [(''backendType'', JStr ''vault'')])]]]
        empty_world) = Exit 0
   \<and> files (snd (run example_env default_flags
        [Inr [JObj [(''apiVersion'', JStr ''kubernetes-client.io/v1''),
                    (''kind'', JStr ''ExternalSecret''),
                    (''metadata'', JObj [(''name'', JStr ''db''), (''uid'', JStr ''42'')]),
                    (''spec'', JObj [(''backendType'', JStr ''vault'')])]]]
        empty_world)) ''/work/converted/default/db.yaml'' = Some ''store: vault''"
proof -
  let ?bad = "JObj [(''kind'', JStr ''Secret''), (''metadata'', JObj [(''name'', JStr ''x'')])]"
  let ?good = "JObj [(''apiVersion'', JStr ''kubernetes-client.io/v1''),
                    (''kind'', JStr ''ExternalSecret''),
                    (''metadata'', JObj [(''name'', JStr ''db''), (''uid'', JStr ''42'')]),
                    (''spec'', JObj [(''backendType'', JStr ''vault'')])]"
  let ?eso = "JObj [(''apiVersion'', JStr ''external-secrets.io/v1alpha1''),
                (''kind'', JStr ''ExternalSecret''),
                (''metadata'', JObj [(''name'', JStr ''db'')]),
                (''spec'', JObj [(''refreshInterval'', JStr ''1h''),
                   (''secretStoreRef'', JObj [(''name'', JStr ''vault''),
                                              (''kind'', JStr ''SecretStore'')])])]"
  have c1: "candidates [Inr [?bad]] = Inr [?bad]"
    by (simp add: candidates_def flattenFile_def flattenDocument_def flat1_def)
  have k1: "keepItem ?bad = ([diagnostic ?bad (JStr ''x'')], Inr False)"
    by (rule keepItem_not_eligible) (simp_all add: eligible_def)
  have f1: "filterL keepItem [?bad]
            = ([[JStr ''Expected'', JStr ''x'', JStr ''to have field:'', JStr ''apiVersion'',
                 JStr ''with value:'', JStr ''kubernetes-client.io/v1'']], Inr [])"
    using filterL_Cons_dropped [of keepItem ?bad _ "[]", OF k1]
    by (simp add: diagnostic_def pureL_def)
  from run_exit_status [OF c1 f1, of example_env default_flags empty_world]
  have r1: "run example_env default_flags [Inr [?bad]] empty_world
     = (Exit 1,
        empty_world\<lparr>stderr :=
          [[JStr ''Expected'', JStr ''x'', JStr ''to have field:'', JStr ''apiVersion'',
            JStr ''with value:'', JStr ''kubernetes-client.io/v1''],
           [JStr ''No convertable ExternalSecrets found'']]\<rparr>)"
    by (simp add: empty_world_def)
  have c2: "candidates [Inr [?good]] = Inr [?good]"
    by (simp add: candidates_def flattenFile_def flattenDocument_def flat1_def)
  have k2: "keepItem ?good = ([], Inr True)"
    by (rule keepItem_eligible) (simp add: eligible_def)
  have f2: "filterL keepItem [?good] = ([], Inr [?good])"
    using filterL_Cons_kept [of keepItem ?good "[]", OF k2] by (simp add: pureL_def)
  have cl: "cleanKesItem ?good
            = Inr (JObj [(''apiVersion'', JStr ''kubernetes-client.io/v1''),
                    (''kind'', JStr ''ExternalSecret''),
                    (''metadata'', JObj [(''name'', JStr ''db'')]),
                    (''spec'', JObj [(''backendType'', JStr ''vault'')])])"
    by (simp add: cleanKesItem_def json_roundtrip_def delete_in_def delete_annotation_def)
  have e2: "bindE (mapE cleanKesItem [?good]) (mapE (kesToEso default_flags)) = Inr [?eso]"
    unfolding mapE.simps cl by (simp add: kesToEso_def default_flags_def)
  let ?w = "empty_world\<lparr>stderr := stderr empty_world @ []\<rparr>"
  let ?r = "forEachW (writeSecret example_env default_flags) [?eso] ?w"
  have o: "outputOf example_env default_flags ?eso
           = Inr (''/work/converted/default/db.yaml'', ''store: vault'')"
    by (simp add: outputOf_def example_env_def default_flags_def path_resolve_def normalizeString_def norm_step_def)
  then have w2: "?r = (None, snd ?r)"
    by (simp add: writeSecret_def)
  from run_exit_status [OF c2 f2, of example_env default_flags empty_world] e2 w2
  have r2: "run example_env default_flags [Inr [?good]] empty_world = (Exit 0, snd ?r)"
    by blast
  have "files (snd ?r) ''/work/converted/default/db.yaml'' = Some ''store: vault''"
    using o by (simp add: writeSecret_def)
  with r1 r2 show ?thesis by simp
qed

subsection \<open>Cleaning\<close>

text \<open>The copy of a value in which JSON changes nothing is the value.\<close>

lemma json_clone_stable: "json_stable v \<Longrightarrow> json_clone v = v"
proof (induction v rule: json_clone.induct)
  case (1 vs)
  then have "map (\<lambda>v. if v = JUndefined then JNull else json_clone v) vs = map (\<lambda>v. v) vs"
    by (intro map_cong) auto
  then show ?case by simp
next
  case (2 kvs)
  then have f: "filter (\<lambda>(k, v). v \<noteq> JUndefined) kvs = kvs"
    by (auto simp: filter_id_conv)
  from 2 have "map (\<lambda>(k, v). (k, json_clone v)) kvs = map (\<lambda>x. x) kvs"
    unfolding f by (intro map_cong) auto
  with f show ?case by simp
next
  case (3 n)
  then show ?case by (cases n) simp_all
qed simp_all

lemma json_clone_JStr [simp]: "json_clone (JStr s) = JStr s"
  by simp

lemma json_clone_eq_JUndefined [simp]: "json_clone v = JUndefined \<longleftrightarrow> v = JUndefined"
proof (cases v)
  case (JNum n)
  then show ?thesis by (cases n) simp_all
qed simp_all

lemma json_clone_eq_JNull:
  "json_clone v = JNull \<longleftrightarrow> v = JNull \<or> v = JNum NNaN \<or> v = JNum NInf \<or> v = JNum NNegInf"
proof (cases v)
  case (JNum n)
  then show ?thesis by (cases n) simp_all
qed simp_all

text \<open>A field of the copy of a parsed value is the copy of the field.\<close>

lemma lookup_json_clone:
  assumes "\<forall>(k, v) \<in> set kvs. v \<noteq> JUndefined"
  shows "lookup (map (\<lambda>(k, v). (k, json_clone v)) (filter (\<lambda>(k, v). v \<noteq> JUndefined) kvs)) k
         = json_clone (lookup kvs k)"
  using assms
proof (induction kvs)
  case Nil
  then show ?case by simp
next
  case (Cons kv kvs)
  then show ?case by (cases kv) auto
qed

lemma get_json_clone:
  assumes "yaml_value v" and "json_clone v \<noteq> JNull"
  shows "get (json_clone v) k = map_sum id json_clone (get v k)"
proof (cases v)
  case (JObj kvs)
  with assms(1) have "\<forall>(k, v) \<in> set kvs. v \<noteq> JUndefined" by auto
  from lookup_json_clone [OF this] JObj show ?thesis by simp
next
  case (JNum n)
  with assms(2) show ?thesis by (cases n) simp_all
qed (use assms in simp_all)

lemma yaml_value_lookup: "yaml_value (JObj kvs) \<Longrightarrow> lookup kvs k \<noteq> JUndefined \<Longrightarrow> yaml_value (lookup kvs k)"
  by (auto simp: lookup_def split: option.splits dest: map_of_SomeD)

lemma delete_prop_without:
  "v \<noteq> JUndefined \<Longrightarrow> v \<noteq> JNull \<Longrightarrow> delete_prop v k = Inr (without [k] v)"
  by (cases v) (simp_all add: without_def)

lemma without_nullish [simp]:
  "without ks v = JUndefined \<longleftrightarrow> v = JUndefined" "without ks v = JNull \<longleftrightarrow> v = JNull"
  by (cases v; simp add: without_def)+

lemma without_without: "without ks (without ks' v) = without (ks' @ ks) v"
  by (cases v) (auto simp: without_def intro: filter_cong)

lemma lookup_filter_keys:
  "lookup (filter (\<lambda>(k, w). k \<notin> set ks) kvs) k' = (if k' \<in> set ks then JUndefined else lookup kvs k')"
proof (induction kvs)
  case Nil
  then show ?case by simp
next
  case (Cons kv kvs)
  then show ?case by (cases kv; cases "fst kv = k'") auto
qed

lemma get_without:
  "get (without ks v) k = (if k \<in> set ks then map_sum id (\<lambda>_. JUndefined) (get v k) else get v k)"
  by (cases v) (simp_all add: without_def lookup_filter_keys)

lemma get_store:
  "get v f = Inr old \<Longrightarrow> old \<noteq> JUndefined
   \<Longrightarrow> get (store v f w) k = (if k = f then Inr w else get v k)"
  by (cases v) (auto simp: lookup_set_prop)

lemma store_store: "store (store v f a) f b = store v f b"
proof (cases v)
  case (JObj kvs)
  have "set_prop (set_prop kvs f a) f b = set_prop kvs f b"
    by (induction kvs) auto
  with JObj show ?thesis by simp
qed simp_all

lemma store_nullish [simp]:
  "store v f w = JUndefined \<longleftrightarrow> v = JUndefined" "store v f w = JNull \<longleftrightarrow> v = JNull"
  by (cases v; simp)+

lemma delete_in_store:
  assumes "get copy ''metadata'' = Inr m" "m \<noteq> JUndefined" "m \<noteq> JNull"
  shows "delete_in copy ''metadata'' k = Inr (store copy ''metadata'' (without [k] m))"
  using assms by (simp add: delete_in_def delete_prop_without)

lemma delete_in_throws:
  "get copy f = Inl e \<or> get copy f = Inr JUndefined \<or> get copy f = Inr JNull
   \<Longrightarrow> delete_in copy f k = Inl TypeError"
  by (auto simp: delete_in_def get_Inl_iff)

lemma cleanKesItem_copy:
  assumes r: "json_roundtrip original = Inr item" and "get item ''metadata'' = Inr m"
    and "m \<noteq> JUndefined" and "m \<noteq> JNull"
  shows "cleanKesItem original = Inr (cleaned item)"
proof -
  define m1 where "m1 = without [''creationTimestamp''] m"
  define m2 where "m2 = without [''generation''] m1"
  define m3 where "m3 = without [''resourceVersion''] m2"
  define m4 where "m4 = without [''uid''] m3"
  define m5 where "m5 = without [''selfLink''] m4"
  have n: "m1 \<noteq> JUndefined" "m1 \<noteq> JNull" "m2 \<noteq> JUndefined" "m2 \<noteq> JNull"
    "m3 \<noteq> JUndefined" "m3 \<noteq> JNull" "m4 \<noteq> JUndefined" "m4 \<noteq> JNull"
    "m5 \<noteq> JUndefined" "m5 \<noteq> JNull"
    using assms(3,4) by (simp_all add: m1_def m2_def m3_def m4_def m5_def)
  have g: "get (store item ''metadata'' w) ''metadata'' = Inr w" for w
    using get_store [OF assms(2,3)] by simp
  have d1: "delete_in item ''metadata'' ''creationTimestamp'' = Inr (store item ''metadata'' m1)"
    unfolding m1_def by (rule delete_in_store [OF assms(2-4)])
  have d2: "delete_in (store item ''metadata'' m1) ''metadata'' ''generation''
            = Inr (store item ''metadata'' m2)"
    using delete_in_store [OF g n(1,2)] by (simp add: store_store m2_def)
  have d3: "delete_in (store item ''metadata'' m2) ''metadata'' ''resourceVersion''
            = Inr (store item ''metadata'' m3)"
    using delete_in_store [OF g n(3,4)] by (simp add: store_store m3_def)
  have d4: "delete_in (store item ''metadata'' m3) ''metadata'' ''uid''
            = Inr (store item ''metadata'' m4)"
    using delete_in_store [OF g n(5,6)] by (simp add: store_store m4_def)
  have d5: "delete_in (store item ''metadata'' m4) ''metadata'' ''selfLink''
            = Inr (store item ''metadata'' m5)"
    using delete_in_store [OF g n(7,8)] by (simp add: store_store m5_def)
  have m5: "m5 = without managed_fields m"
    by (simp add: m5_def m4_def m3_def m2_def m1_def without_without managed_fields_def)
  obtain a where a: "get m5 ''annotations'' = Inr a"
    using get_Inr_ex [OF n(9,10)] by blast
  have d6: "delete_annotation (store item ''metadata'' m5) last_applied
            = Inr (store item ''metadata'' (cleaned_metadata m))"
  proof (cases "a = JUndefined \<or> a = JNull")
    case True
    with a show ?thesis
      by (auto simp: delete_annotation_def g cleaned_metadata_def m5 [symmetric])
  next
    case False
    with a show ?thesis
      by (simp add: delete_annotation_def g cleaned_metadata_def m5 [symmetric]
            delete_prop_without store_store)
  qed
  have s: "store item ''metadata'' w \<noteq> JUndefined" "store item ''metadata'' w \<noteq> JNull" for w
    using assms(2) by (auto simp: get_Inl_iff)
  have d7: "delete_prop (store item ''metadata'' (cleaned_metadata m)) ''status''
            = Inr (cleaned item)"
    using assms(2) by (simp add: delete_prop_without [OF s] cleaned_def)
  show ?thesis
    unfolding cleanKesItem_def r bindE_Inr d1 d2 d3 d4 d5
    using d6 d7 by (simp add: last_applied_def)
qed

lemma cleanKesItem_cleaned:
  assumes "item \<noteq> JUndefined" and "get (json_clone item) ''metadata'' = Inr m"
    and "m \<noteq> JUndefined" and "m \<noteq> JNull"
  shows "cleanKesItem item = Inr (cleaned (json_clone item))"
  using assms(1) by (intro cleanKesItem_copy [OF _ assms(2-4)]) (simp add: json_roundtrip_def)

lemma cleanKesItem_throws:
  assumes "item \<noteq> JUndefined"
    and "get (json_clone item) ''metadata'' = Inl e
         \<or> get (json_clone item) ''metadata'' = Inr JUndefined
         \<or> get (json_clone item) ''metadata'' = Inr JNull"
  shows "cleanKesItem item = Inl TypeError"
proof -
  have "delete_in (json_clone item) ''metadata'' ''creationTimestamp'' = Inl TypeError"
    using assms(2) by (rule delete_in_throws)
  with assms(1) show ?thesis
    by (simp add: cleanKesItem_def json_roundtrip_def)
qed

subsection \<open>Which stage throws\<close>

lemma keepItem_cases:
  "keepItem item =
     (if eligible item then ([], Inr True)
      else case get_path item [''metadata'', ''name''] of
             Inr name \<Rightarrow> ([diagnostic item name], Inr False)
           | Inl e \<Rightarrow> ([], Inl TypeError))"
proof (cases "eligible item")
  case True
  then show ?thesis by (simp add: keepItem_eligible)
next
  case False
  then show ?thesis
    by (cases "get_path item [''metadata'', ''name'']")
       (simp_all add: keepItem_throws keepItem_not_eligible)
qed

lemma filterL_Cons_eq:
  "filterL p (x # xs) =
     (case p x of
        (ms, Inl e) \<Rightarrow> (ms, Inl e)
      | (ms, Inr b) \<Rightarrow>
          (case filterL p xs of
             (ms', Inl e) \<Rightarrow> (ms @ ms', Inl e)
           | (ms', Inr ys) \<Rightarrow> (ms @ ms', Inr (if b then x # ys else ys))))"
proof -
  obtain ms r where p: "p x = (ms, r)" by (cases "p x")
  obtain ms' r' where f: "filterL p xs = (ms', r')" by (cases "filterL p xs")
  show ?thesis
    by (cases r; cases r') (simp_all add: p f pureL_def)
qed

lemma filterL_keepItem_Cons:
  "filterL keepItem (c # cands) =
     (if eligible c
      then (fst (filterL keepItem cands), map_sum id ((#) c) (snd (filterL keepItem cands)))
      else case get_path c [''metadata'', ''name''] of
             Inr name \<Rightarrow> (diagnostic c name # fst (filterL keepItem cands),
                          snd (filterL keepItem cands))
           | Inl e \<Rightarrow> ([], Inl TypeError))"
proof -
  obtain ms' r' where f: "filterL keepItem cands = (ms', r')"
    by (cases "filterL keepItem cands")
  show ?thesis
    unfolding filterL_Cons_eq f keepItem_cases [of c]
    by (cases r'; cases "get_path c [''metadata'', ''name'']") simp_all
qed

lemma filterL_keepItem_Nil: "filterL keepItem [] = ([], Inr [])"
  by (simp add: pureL_def)

lemma filterL_keepItem_Inr:
  "filterL keepItem cands = (ms, Inr kept) \<Longrightarrow> kept = filter eligible cands"
proof (induction cands arbitrary: ms kept)
  case Nil
  then show ?case by (simp add: pureL_def)
next
  case (Cons c cands)
  obtain ms' r where f: "filterL keepItem cands = (ms', r)"
    by (cases "filterL keepItem cands")
  show ?case
  proof (cases r)
    case (Inl e)
    with Cons.prems show ?thesis
      unfolding filterL_keepItem_Cons f
      by (cases "get_path c [''metadata'', ''name'']") (auto split: if_splits)
  next
    case (Inr kept')
    with f Cons.IH have "kept' = filter eligible cands" by blast
    with Cons.prems Inr show ?thesis
      unfolding filterL_keepItem_Cons f
      by (cases "get_path c [''metadata'', ''name'']") (auto split: if_splits)
  qed
qed

lemma filterL_keepItem_Inl:
  "filterL keepItem cands = (ms, Inl e) \<Longrightarrow> e = TypeError"
proof (induction cands arbitrary: ms)
  case Nil
  then show ?case by (simp add: pureL_def)
next
  case (Cons c cands)
  obtain ms' r where f: "filterL keepItem cands = (ms', r)"
    by (cases "filterL keepItem cands")
  from Cons.prems show ?case
    unfolding filterL_keepItem_Cons f
    using Cons.IH f
    by (cases r; cases "get_path c [''metadata'', ''name'']")
       (auto split: if_splits)
qed

lemma filterL_keepItem_reaches:
  assumes "filterL keepItem cands = (ms, Inr kept)" and "c \<in> set cands"
  shows "eligible c \<or> (\<exists>name. get_path c [''metadata'', ''name''] = Inr name)"
  using assms
proof (induction cands arbitrary: ms kept)
  case Nil
  then show ?case by simp
next
  case (Cons d cands)
  obtain ms' r where f: "filterL keepItem cands = (ms', r)"
    by (cases "filterL keepItem cands")
  from Cons.prems(1) obtain kept' where r: "r = Inr kept'"
    unfolding filterL_keepItem_Cons f
    by (cases r; cases "get_path d [''metadata'', ''name'']")
       (auto split: if_splits)
  show ?case
  proof (cases "c = d")
    case True
    with Cons.prems(1) show ?thesis
      unfolding filterL_keepItem_Cons f
      by (cases "get_path d [''metadata'', ''name'']") (auto split: if_splits)
  next
    case False
    with Cons.prems(2) have "c \<in> set cands" by simp
    with Cons.IH f r show ?thesis by blast
  qed
qed

lemma mapE_list_all2: "mapE f xs = Inr ys \<Longrightarrow> list_all2 (\<lambda>x y. f x = Inr y) xs ys"
  by (induction xs arbitrary: ys) (auto simp: bindE_eq_Inr)

lemma mapE_Inl: "mapE f xs = Inl e \<Longrightarrow> \<exists>x \<in> set xs. f x = Inl e"
proof (induction xs)
  case Nil
  then show ?case by simp
next
  case (Cons x xs)
  then show ?case
    by (cases "f x"; cases "mapE f xs") auto
qed

lemma mapE_Inr_all: "mapE f xs = Inr ys \<Longrightarrow> x \<in> set xs \<Longrightarrow> \<exists>y. f x = Inr y"
  by (induction xs arbitrary: ys) (auto simp: bindE_eq_Inr)

lemma flatMapE_Inl: "flatMapE f xs = Inl e \<Longrightarrow> \<exists>x \<in> set xs. f x = Inl e"
proof (induction xs)
  case Nil
  then show ?case by simp
next
  case (Cons x xs)
  then show ?case
    by (cases "f x"; cases "flatMapE f xs") auto
qed

lemma flatMapE_Inr_all: "flatMapE f xs = Inr ys \<Longrightarrow> x \<in> set xs \<Longrightarrow> \<exists>y. f x = Inr y"
  by (induction xs arbitrary: ys) (auto simp: bindE_eq_Inr)

lemma cleanKesItem_cases:
  assumes "item \<noteq> JUndefined"
  shows "cleanKesItem item =
     (case get (json_clone item) ''metadata'' of
        Inr m \<Rightarrow> if m = JUndefined \<or> m = JNull then Inl TypeError
                 else Inr (cleaned (json_clone item))
      | Inl e \<Rightarrow> Inl TypeError)"
  using assms
  by (cases "get (json_clone item) ''metadata''")
     (auto simp: cleanKesItem_throws cleanKesItem_cleaned)

lemma yaml_value_contribution: "yaml_value d \<Longrightarrow> c \<in> set (contribution d) \<Longrightarrow> yaml_value c"
proof (cases d)
  case (JObj kvs)
  assume y: "yaml_value d" and c: "c \<in> set (contribution d)"
  have l: "yaml_value (lookup kvs ''items'') \<or> lookup kvs ''items'' = JUndefined"
    using y JObj by (auto simp: lookup_def split: option.splits dest: map_of_SomeD)
  show ?thesis
    using y c l JObj
    by (cases "lookup kvs ''items''") (auto simp: contribution_def split: if_splits)
qed (auto simp: contribution_def)

lemma run_Uncaught:
  "convert cfg loaded_files = (ms, Inl e)
   \<Longrightarrow> run ext cfg loaded_files w = (Uncaught e, w\<lparr>stderr := stderr w @ ms\<rparr>)"
  by (simp add: run_def)

lemma convert_stages:
  assumes "\<forall>d \<in> set (concat docss). d \<noteq> JUndefined \<and> d \<noteq> JNull"
  shows "convert cfg (map Inr docss) =
     (fst (filterL keepItem (concat (map contribution (concat docss)))),
      bindE (snd (filterL keepItem (concat (map contribution (concat docss))))) (\<lambda>kept.
      bindE (mapE cleanKesItem kept) (mapE (kesToEso cfg))))"
  unfolding convert_eq candidates_def flatMapE_flattenFile [OF assms] by simp

lemma candidates_Inr_no_null:
  assumes "candidates (map Inr docss) = Inr cands"
  shows "\<forall>d \<in> set (concat docss). d \<noteq> JUndefined \<and> d \<noteq> JNull"
proof
  fix d assume "d \<in> set (concat docss)"
  then obtain docs where d: "docs \<in> set docss" "d \<in> set docs" by auto
  from assms d(1) obtain y where "flattenFile (Inr docs) = Inr y"
    unfolding candidates_def using flatMapE_Inr_all [of flattenFile "map Inr docss" cands "Inr docs"]
    by auto
  then obtain cs where "flatMapE flattenDocument docs = Inr cs"
    by (auto simp: flattenFile_def bindE_eq_Inr)
  from flatMapE_Inr_all [OF this d(2)] obtain y' where "flattenDocument d = Inr y'" by blast
  then show "d \<noteq> JUndefined \<and> d \<noteq> JNull"
    using flattenDocument_nullish [of d] by auto
qed

lemma get_cleaned_metadata:
  assumes "get item ''metadata'' = Inr m" "m \<noteq> JUndefined" "m \<noteq> JNull"
  shows "get (cleaned item) ''metadata'' = Inr (cleaned_metadata m)"
  using assms get_store [OF assms(1,2), of "cleaned_metadata m" "''metadata''"]
  by (simp add: cleaned_def get_without)

lemma get_cleaned_metadata_other:
  assumes "k \<notin> set managed_fields" "k \<noteq> ''annotations''"
  shows "get (cleaned_metadata m) k = get m k"
proof -
  have a: "get (without managed_fields m) k = get m k"
    using assms(1) by (simp add: get_without)
  show ?thesis
  proof (cases "get (without managed_fields m) ''annotations''")
    case (Inl e)
    then show ?thesis by (simp add: cleaned_metadata_def a Let_def)
  next
    case (Inr an)
    then show ?thesis
      using get_store [OF Inr, of "without [last_applied] an" k] assms(2) a
      by (auto simp: cleaned_metadata_def Let_def)
  qed
qed

lemma eligible_JObj: "eligible item \<Longrightarrow> \<exists>kvs. item = JObj kvs"
  by (cases item) (simp_all add: eligible_def)

text \<open>The name of a cleaned copy is the copy of the name.\<close>

lemma cleaned_copy_name:
  assumes y: "yaml_value item" and e: "eligible item" and c: "cleanKesItem item = Inr copy"
  shows "\<exists>m name. get item ''metadata'' = Inr m \<and> m \<noteq> JUndefined \<and> json_clone m \<noteq> JNull
           \<and> get m ''name'' = Inr name
           \<and> get_path copy [''metadata'', ''name''] = Inr (json_clone name)"
proof -
  from e obtain kvs where i: "item = JObj kvs" using eligible_JObj by blast
  define m where "m = lookup kvs ''metadata''"
  have gm: "get item ''metadata'' = Inr m" by (simp add: i m_def)
  have gc: "get (json_clone item) ''metadata'' = Inr (json_clone m)"
    using get_json_clone [OF y, of "''metadata''"] gm i by simp
  have "item \<noteq> JUndefined" by (simp add: i)
  from c have n: "json_clone m \<noteq> JUndefined" "json_clone m \<noteq> JNull"
    and cc: "copy = cleaned (json_clone item)"
    unfolding cleanKesItem_cases [OF \<open>item \<noteq> JUndefined\<close>] gc
    by (auto split: if_splits)
  from n(1) have mu: "m \<noteq> JUndefined" by simp
  with y have ym: "yaml_value m" unfolding i m_def by (rule yaml_value_lookup)
  from n(2) have "m \<noteq> JNull" by (auto simp: json_clone_eq_JNull)
  with mu obtain name where gn: "get m ''name'' = Inr name" using get_Inr_ex by blast
  have "get (json_clone m) ''name'' = Inr (json_clone name)"
    using get_json_clone [OF ym n(2), of "''name''"] gn by simp
  moreover have "get (cleaned_metadata (json_clone m)) ''name'' = get (json_clone m) ''name''"
    by (rule get_cleaned_metadata_other) (simp_all add: managed_fields_def)
  ultimately have "get_path copy [''metadata'', ''name''] = Inr (json_clone name)"
    unfolding cc using get_cleaned_metadata [OF gc n] by simp
  with gm mu n(2) gn show ?thesis by blast
qed

text \<open>The file of a target resource that has no name.\<close>

lemma outputOf_undefined:
  assumes "get_path eso [''metadata'', ''name''] = Inr JUndefined"
    and "outputOf ext cfg eso = Inr (p, c)"
  shows "\<exists>ns. get_path eso [''metadata'', ''namespace''] = Inr ns \<and>
           path_resolve (cwd ext) [JStr (out cfg), if truthy ns then ns else JStr ''default'',
                                   JStr ''undefined.yaml''] = Inr p"
proof -
  from assms(2) obtain metadata ns name stem where
    g: "get eso ''metadata'' = Inr metadata" "get metadata ''namespace'' = Inr ns"
       "get metadata ''name'' = Inr name" "to_string ext name = Inr stem"
    and r: "path_resolve (cwd ext) [JStr (out cfg), if truthy ns then ns else JStr ''default'',
                                    JStr (stem @ ''.yaml'')] = Inr p"
    unfolding outputOf_Inr by blast
  from assms(1) g have "name = JUndefined" by simp
  with g(4) have "stem = ''undefined''" by simp
  with g r show ?thesis by simp
qed

text \<open>
  C2, as the code has it. In every run on parsed documents, the target resources are,
  in order, those of the eligible candidates: every eligible candidate is emitted,
  whatever its name. Each of these candidates has a \<open>metadata\<close> that is neither missing
  nor \<open>null\<close> in its JSON copy (so it is not \<open>NaN\<close> or an infinity either), and the
  \<open>metadata.name\<close> of the target resource is the JSON copy of the \<open>metadata.name\<close> of
  the candidate: the name itself when it is missing or a value that the copy leaves as
  it is, a string for one. A target resource without a name is written to the file
  \<open>undefined.yaml\<close> in the directory of its namespace.
\<close>

theorem emitted_names:
  assumes "\<forall>d \<in> set (concat docss). yaml_value d"
    and "convert cfg (map Inr docss) = (ms, Inr esos)"
  shows "list_all2 (\<lambda>item eso. \<exists>m name.
            get item ''metadata'' = Inr m \<and> m \<noteq> JUndefined \<and> json_clone m \<noteq> JNull \<and>
            get m ''name'' = Inr name \<and>
            get_path eso [''metadata'', ''name''] = Inr (json_clone name) \<and>
            (name = JUndefined \<or> json_stable name \<longrightarrow>
               get_path eso [''metadata'', ''name''] = Inr name))
          (filter eligible (concat (map contribution (concat docss)))) esos
       \<and> (\<forall>eso \<in> set esos. \<forall>ext p c.
            get_path eso [''metadata'', ''name''] = Inr JUndefined \<and>
            outputOf ext cfg eso = Inr (p, c) \<longrightarrow>
            (\<exists>ns. get_path eso [''metadata'', ''namespace''] = Inr ns \<and>
               path_resolve (cwd ext) [JStr (out cfg), if truthy ns then ns else JStr ''default'',
                                       JStr ''undefined.yaml''] = Inr p))"
proof (rule conjI)
  let ?cands = "concat (map contribution (concat docss))"
  from assms(2) obtain cands where "candidates (map Inr docss) = Inr cands"
    unfolding convert_eq by (cases "candidates (map Inr docss)") auto
  then have n: "\<forall>d \<in> set (concat docss). d \<noteq> JUndefined \<and> d \<noteq> JNull"
    by (rule candidates_Inr_no_null)
  have y: "\<forall>c \<in> set ?cands. yaml_value c"
    using assms(1) yaml_value_contribution by auto
  obtain ms' r where f: "filterL keepItem ?cands = (ms', r)"
    by (cases "filterL keepItem ?cands")
  from assms(2) obtain kept cleaned_items where
    r: "r = Inr kept" and c: "mapE cleanKesItem kept = Inr cleaned_items"
    and e: "mapE (kesToEso cfg) cleaned_items = Inr esos"
    unfolding convert_stages [OF n] f by (auto simp: bindE_eq_Inr)
  from f r have k: "kept = filter eligible ?cands"
    by (simp add: filterL_keepItem_Inr)
  have 1: "list_all2 (\<lambda>item c. \<exists>m name.
            get item ''metadata'' = Inr m \<and> m \<noteq> JUndefined \<and> json_clone m \<noteq> JNull \<and>
            get m ''name'' = Inr name \<and>
            get_path c [''metadata'', ''name''] = Inr (json_clone name)) kept cleaned_items"
  proof (rule list.rel_mono_strong [OF mapE_list_all2 [OF c]])
    fix item c
    assume i: "item \<in> set kept" and cl: "cleanKesItem item = Inr c"
    from i k y have "yaml_value item" "eligible item" by auto
    from cleaned_copy_name [OF this cl]
    show "\<exists>m name.
            get item ''metadata'' = Inr m \<and> m \<noteq> JUndefined \<and> json_clone m \<noteq> JNull \<and>
            get m ''name'' = Inr name \<and>
            get_path c [''metadata'', ''name''] = Inr (json_clone name)" .
  qed
  have 2: "list_all2 (\<lambda>c eso. get eso ''metadata'' = get c ''metadata'') cleaned_items esos"
  proof (rule list_all2_mono [OF mapE_list_all2 [OF e]])
    fix c eso
    assume "kesToEso cfg c = Inr eso"
    from kesToEso_result [OF this] show "get eso ''metadata'' = get c ''metadata''"
      by auto
  qed
  have 3: "list_all2 (\<lambda>item eso. \<exists>m name.
            get item ''metadata'' = Inr m \<and> m \<noteq> JUndefined \<and> json_clone m \<noteq> JNull \<and>
            get m ''name'' = Inr name \<and>
            get_path eso [''metadata'', ''name''] = Inr (json_clone name))
          kept esos"
    using list_all2_trans [OF _ 1 2, where ?P3.0 = "\<lambda>item eso. \<exists>m name.
            get item ''metadata'' = Inr m \<and> m \<noteq> JUndefined \<and> json_clone m \<noteq> JNull \<and>
            get m ''name'' = Inr name \<and>
            get_path eso [''metadata'', ''name''] = Inr (json_clone name)"]
    by simp
  have "list_all2 (\<lambda>item eso. \<exists>m name.
            get item ''metadata'' = Inr m \<and> m \<noteq> JUndefined \<and> json_clone m \<noteq> JNull \<and>
            get m ''name'' = Inr name \<and>
            get_path eso [''metadata'', ''name''] = Inr (json_clone name) \<and>
            (name = JUndefined \<or> json_stable name \<longrightarrow>
               get_path eso [''metadata'', ''name''] = Inr name))
          kept esos"
  proof (rule list_all2_mono [OF 3])
    fix item eso
    assume "\<exists>m name.
            get item ''metadata'' = Inr m \<and> m \<noteq> JUndefined \<and> json_clone m \<noteq> JNull \<and>
            get m ''name'' = Inr name \<and>
            get_path eso [''metadata'', ''name''] = Inr (json_clone name)"
    then obtain m name where
      a: "get item ''metadata'' = Inr m" "m \<noteq> JUndefined" "json_clone m \<noteq> JNull"
         "get m ''name'' = Inr name"
         "get_path eso [''metadata'', ''name''] = Inr (json_clone name)"
      by blast
    have "name = JUndefined \<or> json_stable name \<longrightarrow> json_clone name = name"
      by (auto simp: json_clone_stable)
    with a show "\<exists>m name.
            get item ''metadata'' = Inr m \<and> m \<noteq> JUndefined \<and> json_clone m \<noteq> JNull \<and>
            get m ''name'' = Inr name \<and>
            get_path eso [''metadata'', ''name''] = Inr (json_clone name) \<and>
            (name = JUndefined \<or> json_stable name \<longrightarrow>
               get_path eso [''metadata'', ''name''] = Inr name)"
      by (intro exI [of _ m] exI [of _ name]) simp
  qed
  with k show "list_all2 (\<lambda>item eso. \<exists>m name.
            get item ''metadata'' = Inr m \<and> m \<noteq> JUndefined \<and> json_clone m \<noteq> JNull \<and>
            get m ''name'' = Inr name \<and>
            get_path eso [''metadata'', ''name''] = Inr (json_clone name) \<and>
            (name = JUndefined \<or> json_stable name \<longrightarrow>
               get_path eso [''metadata'', ''name''] = Inr name))
          (filter eligible (concat (map contribution (concat docss)))) esos" by simp
next
  show "\<forall>eso \<in> set esos. \<forall>ext p c.
            get_path eso [''metadata'', ''name''] = Inr JUndefined \<and>
            outputOf ext cfg eso = Inr (p, c) \<longrightarrow>
            (\<exists>ns. get_path eso [''metadata'', ''namespace''] = Inr ns \<and>
               path_resolve (cwd ext) [JStr (out cfg), if truthy ns then ns else JStr ''default'',
                                       JStr ''undefined.yaml''] = Inr p)"
    using outputOf_undefined by blast
qed

theorem emitted_names_witness:
  "convert default_flags
        (map Inr [[JObj [(''apiVersion'', JStr ''kubernetes-client.io/v1''),
                    (''kind'', JStr ''ExternalSecret''),
                    (''metadata'', JObj [(''name'', JStr ''db''), (''uid'', JStr ''42'')]),
                    (''spec'', JObj [(''backendType'', JStr ''vault'')])],
                   JObj [(''apiVersion'', JStr ''kubernetes-client.io/v1''),
                    (''kind'', JStr ''ExternalSecret''),
                    (''metadata'', JObj [(''name'', JDate ''2021-01-01T00:00:00.000Z'')]),
                    (''spec'', JObj [(''backendType'', JStr ''vault'')])]]])
      = ([], Inr [JObj [(''apiVersion'', JStr ''external-secrets.io/v1alpha1''),
                (''kind'', JStr ''ExternalSecret''),
                (''metadata'', JObj [(''name'', JStr ''db'')]),
                (''spec'', JObj [(''refreshInterval'', JStr ''1h''),
                   (''secretStoreRef'', JObj [(''name'', JStr ''vault''),
                                              (''kind'', JStr ''SecretStore'')])])],
                  JObj [(''apiVersion'', JStr ''external-secrets.io/v1alpha1''),
                (''kind'', JStr ''ExternalSecret''),
                (''metadata'', JObj [(''name'', JStr ''2021-01-01T00:00:00.000Z'')]),
                (''spec'', JObj [(''refreshInterval'', JStr ''1h''),
                   (''secretStoreRef'', JObj [(''name'', JStr ''vault''),
                                              (''kind'', JStr ''SecretStore'')])])]])
   \<and> list_all2 (\<lambda>item eso. \<exists>m name.
            get item ''metadata'' = Inr m \<and> m \<noteq> JUndefined \<and> json_clone m \<noteq> JNull \<and>
            get m ''name'' = Inr name \<and>
            get_path eso [''metadata'', ''name''] = Inr (json_clone name))
          (filter eligible (concat (map contribution
             (concat [[JObj [(''apiVersion'', JStr ''kubernetes-client.io/v1''),
                    (''kind'', JStr ''ExternalSecret''),
                    (''metadata'', JObj [(''name'', JStr ''db''), (''uid'', JStr ''42'')]),
                    (''spec'', JObj [(''backendType'', JStr ''vault'')])],
                   JObj [(''apiVersion'', JStr ''kubernetes-client.io/v1''),
                    (''kind'', JStr ''ExternalSecret''),
                    (''metadata'', JObj [(''name'', JDate ''2021-01-01T00:00:00.000Z'')]),
                    (''spec'', JObj [(''backendType'', JStr ''vault'')])]]]))))
          [JObj [(''apiVersion'', JStr ''external-secrets.io/v1alpha1''),
                (''kind'', JStr ''ExternalSecret''),
                (''metadata'', JObj [(''name'', JStr ''db'')]),
                (''spec'', JObj [(''refreshInterval'', JStr ''1h''),
                   (''secretStoreRef'', JObj [(''name'', JStr ''vault''),
                                              (''kind'', JStr ''SecretStore'')])])],
           JObj [(''apiVersion'', JStr ''external-secrets.io/v1alpha1''),
                (''kind'', JStr ''ExternalSecret''),
                (''metadata'', JObj [(''name'', JStr ''2021-01-01T00:00:00.000Z'')]),
                (''spec'', JObj [(''refreshInterval'', JStr ''1h''),
                   (''secretStoreRef'', JObj [(''name'', JStr ''vault''),
                                              (''kind'', JStr ''SecretStore'')])])]]"
proof -
  let ?docss = "[[JObj [(''apiVersion'', JStr ''kubernetes-client.io/v1''),
                    (''kind'', JStr ''ExternalSecret''),
                    (''metadata'', JObj [(''name'', JStr ''db''), (''uid'', JStr ''42'')]),
                    (''spec'', JObj [(''backendType'', JStr ''vault'')])],
                   JObj [(''apiVersion'', JStr ''kubernetes-client.io/v1''),
                    (''kind'', JStr ''ExternalSecret''),
                    (''metadata'', JObj [(''name'', JDate ''2021-01-01T00:00:00.000Z'')]),
                    (''spec'', JObj [(''backendType'', JStr ''vault'')])]]]"
  have a: "\<forall>d \<in> set (concat ?docss). yaml_value d" by simp
  have b: "convert default_flags (map Inr ?docss)
      = ([], Inr [JObj [(''apiVersion'', JStr ''external-secrets.io/v1alpha1''),
                (''kind'', JStr ''ExternalSecret''),
                (''metadata'', JObj [(''name'', JStr ''db'')]),
                (''spec'', JObj [(''refreshInterval'', JStr ''1h''),
                   (''secretStoreRef'', JObj [(''name'', JStr ''vault''),
                                              (''kind'', JStr ''SecretStore'')])])],
                  JObj [(''apiVersion'', JStr ''external-secrets.io/v1alpha1''),
                (''kind'', JStr ''ExternalSecret''),
                (''metadata'', JObj [(''name'', JStr ''2021-01-01T00:00:00.000Z'')]),
                (''spec'', JObj [(''refreshInterval'', JStr ''1h''),
                   (''secretStoreRef'', JObj [(''name'', JStr ''vault''),
                                              (''kind'', JStr ''SecretStore'')])])]])"
    by (simp add: convert_def candidates_def flattenFile_def flattenDocument_def flat1_def
        keepItem_def fail_def pureL_def cleanKesItem_def json_roundtrip_def delete_in_def
        delete_annotation_def kesToEso_def default_flags_def)
  from emitted_names [OF a b]
  have "list_all2 (\<lambda>item eso. \<exists>m name.
            get item ''metadata'' = Inr m \<and> m \<noteq> JUndefined \<and> json_clone m \<noteq> JNull \<and>
            get m ''name'' = Inr name \<and>
            get_path eso [''metadata'', ''name''] = Inr (json_clone name) \<and>
            (name = JUndefined \<or> json_stable name \<longrightarrow>
               get_path eso [''metadata'', ''name''] = Inr name))
          (filter eligible (concat (map contribution (concat ?docss))))
          [JObj [(''apiVersion'', JStr ''external-secrets.io/v1alpha1''),
                (''kind'', JStr ''ExternalSecret''),
                (''metadata'', JObj [(''name'', JStr ''db'')]),
                (''spec'', JObj [(''refreshInterval'', JStr ''1h''),
                   (''secretStoreRef'', JObj [(''name'', JStr ''vault''),
                                              (''kind'', JStr ''SecretStore'')])])],
           JObj [(''apiVersion'', JStr ''external-secrets.io/v1alpha1''),
                (''kind'', JStr ''ExternalSecret''),
                (''metadata'', JObj [(''name'', JStr ''2021-01-01T00:00:00.000Z'')]),
                (''spec'', JObj [(''refreshInterval'', JStr ''1h''),
                   (''secretStoreRef'', JObj [(''name'', JStr ''vault''),
                                              (''kind'', JStr ''SecretStore'')])])]]"
    by (rule conjunct1)
  then have "list_all2 (\<lambda>item eso. \<exists>m name.
            get item ''metadata'' = Inr m \<and> m \<noteq> JUndefined \<and> json_clone m \<noteq> JNull \<and>
            get m ''name'' = Inr name \<and>
            get_path eso [''metadata'', ''name''] = Inr (json_clone name))
          (filter eligible (concat (map contribution (concat ?docss))))
          [JObj [(''apiVersion'', JStr ''external-secrets.io/v1alpha1''),
                (''kind'', JStr ''ExternalSecret''),
                (''metadata'', JObj [(''name'', JStr ''db'')]),
                (''spec'', JObj [(''refreshInterval'', JStr ''1h''),
                   (''secretStoreRef'', JObj [(''name'', JStr ''vault''),
                                              (''kind'', JStr ''SecretStore'')])])],
           JObj [(''apiVersion'', JStr ''external-secrets.io/v1alpha1''),
                (''kind'', JStr ''ExternalSecret''),
                (''metadata'', JObj [(''name'', JStr ''2021-01-01T00:00:00.000Z'')]),
                (''spec'', JObj [(''refreshInterval'', JStr ''1h''),
                   (''secretStoreRef'', JObj [(''name'', JStr ''vault''),
                                              (''kind'', JStr ''SecretStore'')])])]]"
    by (rule list_all2_mono) blast
  with b show ?thesis by (intro conjI)
qed

text \<open>
  The claim as written fails on an eligible candidate whose \<open>metadata\<close> has no \<open>name\<close>:
  the resource is written, to the file \<open>undefined.yaml\<close>.
\<close>

theorem emitted_without_name_counterexample:
  "get_path (JObj [(''apiVersion'', JStr ''kubernetes-client.io/v1''),
                    (''kind'', JStr ''ExternalSecret''),
                    (''metadata'', JObj [(''labels'', JObj [(''app'', JStr ''db'')])]),
                    (''spec'', JObj [(''backendType'', JStr ''vault'')])])
      [''metadata'', ''name''] = Inr JUndefined
   \<and> fst (run example_env default_flags
        [Inr [JObj [(''apiVersion'', JStr ''kubernetes-client.io/v1''),
                    (''kind'', JStr ''ExternalSecret''),
                    (''metadata'', JObj [(''labels'', JObj [(''app'', JStr ''db'')])]),
                    (''spec'', JObj [(''backendType'', JStr ''vault'')])]]]
        empty_world) = Exit 0
   \<and> files (snd (run example_env default_flags
        [Inr [JObj [(''apiVersion'', JStr ''kubernetes-client.io/v1''),
                    (''kind'', JStr ''ExternalSecret''),
                    (''metadata'', JObj [(''labels'', JObj [(''app'', JStr ''db'')])]),
                    (''spec'', JObj [(''backendType'', JStr ''vault'')])]]]
        empty_world)) ''/work/converted/default/undefined.yaml'' = Some ''store: vault''"
proof -
  have c: "convert default_flags
        [Inr [JObj [(''apiVersion'', JStr ''kubernetes-client.io/v1''),
                    (''kind'', JStr ''ExternalSecret''),
                    (''metadata'', JObj [(''labels'', JObj [(''app'', JStr ''db'')])]),
                    (''spec'', JObj [(''backendType'', JStr ''vault'')])]]]
   = ([], Inr [JObj [(''apiVersion'', JStr ''external-secrets.io/v1alpha1''),
                (''kind'', JStr ''ExternalSecret''),
                (''metadata'', JObj [(''labels'', JObj [(''app'', JStr ''db'')])]),
                (''spec'', JObj [(''refreshInterval'', JStr ''1h''),
                   (''secretStoreRef'', JObj [(''name'', JStr ''vault''),
                                              (''kind'', JStr ''SecretStore'')])])]])"
    by (simp add: convert_def candidates_def flattenFile_def flattenDocument_def flat1_def
        keepItem_def fail_def pureL_def cleanKesItem_def json_roundtrip_def delete_in_def
        delete_annotation_def kesToEso_def default_flags_def)
  show ?thesis
    unfolding run_def c
    by (simp add: writeSecret_def outputOf_def example_env_def default_flags_def path_resolve_def normalizeString_def norm_step_def
          empty_world_def)
qed

subsection \<open>The run on candidates without metadata\<close>

lemma flattenDocument_Inl: "flattenDocument d = Inl e \<Longrightarrow> e = TypeError"
  by (cases "get d ''items''") (auto simp: flattenDocument_def get_Inl_iff split: if_splits)

lemma candidates_null:
  assumes "JNull \<in> set (concat docss)"
  shows "candidates (map Inr docss) = Inl TypeError"
proof (cases "candidates (map Inr docss)")
  case (Inr cands)
  from candidates_Inr_no_null [OF this] assms show ?thesis by blast
next
  case (Inl e)
  then obtain f where "f \<in> set (map Inr docss)" "flattenFile f = Inl e"
    unfolding candidates_def by (blast dest: flatMapE_Inl)
  then obtain docs where "flattenFile (Inr docs) = Inl e" by auto
  then have "flatMapE flattenDocument docs = Inl e"
    by (cases "flatMapE flattenDocument docs") (simp_all add: flattenFile_def)
  then obtain d where "flattenDocument d = Inl e" by (blast dest: flatMapE_Inl)
  then have "e = TypeError" by (rule flattenDocument_Inl)
  with Inl show ?thesis by simp
qed

lemma convert_throws_without_metadata:
  assumes y: "\<forall>d \<in> set (concat docss). yaml_value d"
    and cs: "candidates (map Inr docss) = Inr cands"
    and c: "c \<in> set cands"
    and m: "c = JNull \<or> get c ''metadata'' = Inr JUndefined \<or> get c ''metadata'' = Inr JNull
            \<or> (eligible c \<and> (\<exists>m. get c ''metadata'' = Inr m \<and> json_clone m = JNull))"
  shows "\<exists>ms. convert cfg (map Inr docss) = (ms, Inl TypeError)"
proof -
  from cs have n: "\<forall>d \<in> set (concat docss). d \<noteq> JUndefined \<and> d \<noteq> JNull"
    by (rule candidates_Inr_no_null)
  from cs have cands: "cands = concat (map contribution (concat docss))"
    unfolding candidates_def flatMapE_flattenFile [OF n] by simp
  have yc: "\<forall>c \<in> set cands. yaml_value c"
    unfolding cands using y yaml_value_contribution by auto
  obtain ms r where f: "filterL keepItem cands = (ms, r)"
    by (cases "filterL keepItem cands")
  show ?thesis
  proof (cases r)
    case (Inl e)
    with f have "e = TypeError" by (simp add: filterL_keepItem_Inl)
    with f Inl cs show ?thesis by (simp add: convert_eq)
  next
    case (Inr kept)
    with f have k: "kept = filter eligible cands" by (simp add: filterL_keepItem_Inr)
    have e: "eligible c"
    proof (cases "eligible c")
      case False
      with m have "\<And>name. get_path c [''metadata'', ''name''] \<noteq> Inr name" by auto
      with filterL_keepItem_reaches [OF f [unfolded Inr] c] show ?thesis by blast
    qed
    with c k have ck: "c \<in> set kept" by simp
    from e obtain kvs where o: "c = JObj kvs" using eligible_JObj by blast
    from c yc have "yaml_value c" by blast
    from get_json_clone [OF this, of "''metadata''"] o
    have g: "get (json_clone c) ''metadata'' = map_sum id json_clone (get c ''metadata'')"
      by simp
    from m o have "get (json_clone c) ''metadata'' = Inr JUndefined
                 \<or> get (json_clone c) ''metadata'' = Inr JNull"
      unfolding g by auto
    with o have t: "cleanKesItem c = Inl TypeError"
      by (intro cleanKesItem_throws) auto
    have "mapE cleanKesItem kept = Inl TypeError"
    proof (cases "mapE cleanKesItem kept")
      case (Inl e')
      then obtain x where x: "x \<in> set kept" "cleanKesItem x = Inl e'"
        by (blast dest: mapE_Inl)
      with k have "x \<noteq> JUndefined" by (auto dest: eligible_JObj)
      from x(2) have "e' = TypeError"
        unfolding cleanKesItem_cases [OF \<open>x \<noteq> JUndefined\<close>]
        by (cases "get (json_clone x) ''metadata''") (auto split: if_splits)
      with Inl show ?thesis by simp
    next
      case (Inr cleaned_items)
      from mapE_Inr_all [OF this ck] t show ?thesis by simp
    qed
    with f Inr cs show ?thesis by (simp add: convert_eq)
  qed
qed

text \<open>
  A candidate that is not eligible and whose \<open>metadata\<close> can be read is skipped: the
  name in its diagnostic is \<open>undefined\<close> when the \<open>metadata\<close> is not a map.
\<close>

lemma skipped_with_metadata:
  assumes "\<not> eligible c" and "get c ''metadata'' = Inr m" and "m \<noteq> JUndefined" and "m \<noteq> JNull"
  shows "\<exists>name. get m ''name'' = Inr name
           \<and> ((\<forall>kvs. m \<noteq> JObj kvs) \<longrightarrow> name = JUndefined)
           \<and> keepItem c = ([diagnostic c name], Inr False)
           \<and> filterL keepItem (c # rest)
               = (diagnostic c name # fst (filterL keepItem rest), snd (filterL keepItem rest))"
proof -
  from assms(3,4) obtain name where n: "get m ''name'' = Inr name"
    using get_Inr_ex by blast
  then have u: "(\<forall>kvs. m \<noteq> JObj kvs) \<longrightarrow> name = JUndefined"
    using assms(3,4) by (cases m) auto
  from assms(2) n have p: "get_path c [''metadata'', ''name''] = Inr name" by simp
  have "keepItem c = ([diagnostic c name], Inr False)"
    unfolding keepItem_cases [of c] using assms(1) p by simp
  moreover have "filterL keepItem (c # rest)
               = (diagnostic c name # fst (filterL keepItem rest), snd (filterL keepItem rest))"
    unfolding filterL_keepItem_Cons using assms(1) p by simp
  ultimately show ?thesis using n u by blast
qed

text \<open>
  C10, as the code has it. On parsed documents, a run in which some document is \<open>null\<close>
  throws a \<open>TypeError\<close> while flattening, before anything is printed; and a run in which
  some candidate is \<open>null\<close>, or has a \<open>metadata\<close> that is missing (\<open>undefined\<close>) or
  \<open>null\<close> (which is the case of every candidate that is not a map), ends with an
  uncaught \<open>TypeError\<close> and without a file written: the candidate is not skipped. So
  does a run in which some eligible candidate has a \<open>metadata\<close> that is \<open>NaN\<close> or an
  infinity, \<open>null\<close> in the copy that is cleaned. A candidate that is not eligible and
  whose \<open>metadata\<close> is neither missing nor \<open>null\<close> is skipped, whether its \<open>metadata\<close>
  is a map or not: the filter prints one diagnostic for it, which names \<open>undefined\<close> when
  the \<open>metadata\<close> is not a map, and goes on with the candidates after it.
\<close>

theorem abort_without_metadata:
  assumes "\<forall>d \<in> set (concat docss). yaml_value d"
  shows "(JNull \<in> set (concat docss) \<longrightarrow>
            run ext cfg (map Inr docss) w = (Uncaught TypeError, w))
       \<and> (\<forall>cands c.
            candidates (map Inr docss) = Inr cands \<and> c \<in> set cands \<and>
            (c = JNull \<or> get c ''metadata'' = Inr JUndefined \<or> get c ''metadata'' = Inr JNull)
            \<longrightarrow> fst (run ext cfg (map Inr docss) w) = Uncaught TypeError
                \<and> files (snd (run ext cfg (map Inr docss) w)) = files w)
       \<and> (\<forall>cands c m.
            candidates (map Inr docss) = Inr cands \<and> c \<in> set cands \<and> eligible c \<and>
            get c ''metadata'' = Inr m \<and> json_clone m = JNull
            \<longrightarrow> fst (run ext cfg (map Inr docss) w) = Uncaught TypeError
                \<and> files (snd (run ext cfg (map Inr docss) w)) = files w)
       \<and> (\<forall>c m rest.
            \<not> eligible c \<and> get c ''metadata'' = Inr m \<and> m \<noteq> JUndefined \<and> m \<noteq> JNull
            \<longrightarrow> (\<exists>name. get m ''name'' = Inr name
                   \<and> ((\<forall>kvs. m \<noteq> JObj kvs) \<longrightarrow> name = JUndefined)
                   \<and> keepItem c = ([diagnostic c name], Inr False)
                   \<and> filterL keepItem (c # rest)
                       = (diagnostic c name # fst (filterL keepItem rest),
                          snd (filterL keepItem rest))))"
proof (intro conjI impI allI)
  assume "JNull \<in> set (concat docss)"
  then have "candidates (map Inr docss) = Inl TypeError" by (rule candidates_null)
  then have "convert cfg (map Inr docss) = ([], Inl TypeError)" by (simp add: convert_eq)
  from run_Uncaught [OF this] show "run ext cfg (map Inr docss) w = (Uncaught TypeError, w)"
    by simp
next
  fix cands c
  assume a: "candidates (map Inr docss) = Inr cands \<and> c \<in> set cands \<and>
    (c = JNull \<or> get c ''metadata'' = Inr JUndefined \<or> get c ''metadata'' = Inr JNull)"
  with assms obtain ms where "convert cfg (map Inr docss) = (ms, Inl TypeError)"
    using convert_throws_without_metadata [of docss cands c cfg] by blast
  from run_Uncaught [OF this]
  have r: "run ext cfg (map Inr docss) w = (Uncaught TypeError, w\<lparr>stderr := stderr w @ ms\<rparr>)" .
  show "fst (run ext cfg (map Inr docss) w) = Uncaught TypeError"
    "files (snd (run ext cfg (map Inr docss) w)) = files w"
    unfolding r by simp_all
next
  fix cands c m
  assume a: "candidates (map Inr docss) = Inr cands \<and> c \<in> set cands \<and> eligible c \<and>
            get c ''metadata'' = Inr m \<and> json_clone m = JNull"
  with assms obtain ms where "convert cfg (map Inr docss) = (ms, Inl TypeError)"
    using convert_throws_without_metadata [of docss cands c cfg] by blast
  from run_Uncaught [OF this]
  have r: "run ext cfg (map Inr docss) w = (Uncaught TypeError, w\<lparr>stderr := stderr w @ ms\<rparr>)" .
  show "fst (run ext cfg (map Inr docss) w) = Uncaught TypeError"
    "files (snd (run ext cfg (map Inr docss) w)) = files w"
    unfolding r by simp_all
next
  fix c m rest
  assume "\<not> eligible c \<and> get c ''metadata'' = Inr m \<and> m \<noteq> JUndefined \<and> m \<noteq> JNull"
  then have "\<not> eligible c" "get c ''metadata'' = Inr m" "m \<noteq> JUndefined" "m \<noteq> JNull"
    by blast+
  then show "\<exists>name. get m ''name'' = Inr name
                   \<and> ((\<forall>kvs. m \<noteq> JObj kvs) \<longrightarrow> name = JUndefined)
                   \<and> keepItem c = ([diagnostic c name], Inr False)
                   \<and> filterL keepItem (c # rest)
                       = (diagnostic c name # fst (filterL keepItem rest),
                          snd (filterL keepItem rest))"
    by (rule skipped_with_metadata)
qed

theorem abort_without_metadata_witness:
  "JNull \<in> set (concat [[JNull]])
   \<and> run example_env default_flags (map Inr [[JNull]]) empty_world
       = (Uncaught TypeError, empty_world)
   \<and> candidates (map Inr [[JObj [(''apiVersion'', JStr ''kubernetes-client.io/v1''),
                                 (''kind'', JStr ''ExternalSecret''),
                                 (''spec'', JObj [(''backendType'', JStr ''vault'')])]]])
       = Inr [JObj [(''apiVersion'', JStr ''kubernetes-client.io/v1''),
                    (''kind'', JStr ''ExternalSecret''),
                    (''spec'', JObj [(''backendType'', JStr ''vault'')])]]
   \<and> get (JObj [(''apiVersion'', JStr ''kubernetes-client.io/v1''),
                 (''kind'', JStr ''ExternalSecret''),
                 (''spec'', JObj [(''backendType'', JStr ''vault'')])]) ''metadata''
       = Inr JUndefined
   \<and> fst (run example_env default_flags
        (map Inr [[JObj [(''apiVersion'', JStr ''kubernetes-client.io/v1''),
                         (''kind'', JStr ''ExternalSecret''),
                         (''spec'', JObj [(''backendType'', JStr ''vault'')])]]])
        empty_world) = Uncaught TypeError
   \<and> fst (run example_env default_flags
        (map Inr [[JObj [(''apiVersion'', JStr ''kubernetes-client.io/v1''),
                         (''kind'', JStr ''ExternalSecret''),
                         (''metadata'', JNum NNaN),
                         (''spec'', JObj [(''backendType'', JStr ''vault'')])]]])
        empty_world) = Uncaught TypeError
   \<and> keepItem (JObj [(''kind'', JStr ''Secret''), (''metadata'', JStr ''x'')])
       = ([[JStr ''Expected'', JUndefined, JStr ''to have field:'', JStr ''apiVersion'',
            JStr ''with value:'', JStr ''kubernetes-client.io/v1'']], Inr False)"
proof -
  let ?c = "JObj [(''apiVersion'', JStr ''kubernetes-client.io/v1''),
                  (''kind'', JStr ''ExternalSecret''),
                  (''spec'', JObj [(''backendType'', JStr ''vault'')])]"
  let ?n = "JObj [(''apiVersion'', JStr ''kubernetes-client.io/v1''),
                  (''kind'', JStr ''ExternalSecret''),
                  (''metadata'', JNum NNaN),
                  (''spec'', JObj [(''backendType'', JStr ''vault'')])]"
  let ?s = "JObj [(''kind'', JStr ''Secret''), (''metadata'', JStr ''x'')]"
  have a1: "\<forall>d \<in> set (concat [[JNull]]). yaml_value d" by simp
  have b1: "JNull \<in> set (concat [[JNull]])" by simp
  from abort_without_metadata [OF a1, of example_env default_flags empty_world] b1
  have r1: "run example_env default_flags (map Inr [[JNull]]) empty_world
       = (Uncaught TypeError, empty_world)"
    by blast
  have a2: "\<forall>d \<in> set (concat [[?c]]). yaml_value d" by simp
  have c2: "candidates (map Inr [[?c]]) = Inr [?c]"
    by (simp add: candidates_def flattenFile_def flattenDocument_def flat1_def)
  have g2: "get ?c ''metadata'' = Inr JUndefined" by simp
  from abort_without_metadata [OF a2, of example_env default_flags empty_world] c2 g2
  have r2: "fst (run example_env default_flags (map Inr [[?c]]) empty_world)
            = Uncaught TypeError"
    by (meson list.set_intros(1))
  have a3: "\<forall>d \<in> set (concat [[?n]]). yaml_value d" by simp
  have c3: "candidates (map Inr [[?n]]) = Inr [?n]"
    by (simp add: candidates_def flattenFile_def flattenDocument_def flat1_def)
  have g3: "eligible ?n" "get ?n ''metadata'' = Inr (JNum NNaN)" "json_clone (JNum NNaN) = JNull"
    by (simp_all add: eligible_def)
  from abort_without_metadata [OF a3, of example_env default_flags empty_world] c3 g3
  have r3: "fst (run example_env default_flags (map Inr [[?n]]) empty_world)
            = Uncaught TypeError"
    by (meson list.set_intros(1))
  have g4: "\<not> eligible ?s" "get ?s ''metadata'' = Inr (JStr ''x'')"
    "JStr ''x'' \<noteq> JUndefined" "JStr ''x'' \<noteq> JNull"
    by (simp_all add: eligible_def)
  from abort_without_metadata [OF a1, of example_env default_flags empty_world] g4
  obtain name where "get (JStr ''x'') ''name'' = Inr name"
    "keepItem ?s = ([diagnostic ?s name], Inr False)"
    by blast
  then have r4: "keepItem ?s
       = ([[JStr ''Expected'', JUndefined, JStr ''to have field:'', JStr ''apiVersion'',
            JStr ''with value:'', JStr ''kubernetes-client.io/v1'']], Inr False)"
    by (simp add: diagnostic_def)
  from b1 r1 c2 g2 r2 r3 r4 show ?thesis by (intro conjI)
qed

text \<open>
  The claim as written fails on a candidate whose \<open>metadata\<close> is a string: the candidate
  lacks a \<open>metadata\<close> map, yet nothing throws. It is skipped with a diagnostic that names
  \<open>undefined\<close>, and the eligible candidate after it is converted.
\<close>

theorem scalar_metadata_counterexample:
  "convert default_flags
     [Inr [JObj [(''kind'', JStr ''Secret''), (''metadata'', JStr ''x'')],
           JObj [(''apiVersion'', JStr ''kubernetes-client.io/v1''),
                 (''kind'', JStr ''ExternalSecret''),
                 (''metadata'', JObj [(''name'', JStr ''db'')]),
                 (''spec'', JObj [(''backendType'', JStr ''vault'')])]]]
   = ([[JStr ''Expected'', JUndefined, JStr ''to have field:'', JStr ''apiVersion'',
        JStr ''with value:'', JStr ''kubernetes-client.io/v1'']],
      Inr [JObj [(''apiVersion'', JStr ''external-secrets.io/v1alpha1''),
                 (''kind'', JStr ''ExternalSecret''),
                 (''metadata'', JObj [(''name'', JStr ''db'')]),
                 (''spec'', JObj [(''refreshInterval'', JStr ''1h''),
                    (''secretStoreRef'', JObj [(''name'', JStr ''vault''),
                                               (''kind'', JStr ''SecretStore'')])])]])"
  by (simp add: convert_def candidates_def flattenFile_def flattenDocument_def flat1_def
        keepItem_def fail_def pureL_def console_error_def cleanKesItem_def json_roundtrip_def
        delete_in_def delete_annotation_def kesToEso_def default_flags_def)

subsection \<open>Trees in the heap\<close>

lemma rep_frame:
  "rep h v t F \<Longrightarrow> length h \<le> length h' \<Longrightarrow> (\<forall>a \<in> F. h' ! a = h ! a) \<Longrightarrow> rep h' v t F"
  "rep_list h vs ts F \<Longrightarrow> length h \<le> length h' \<Longrightarrow> (\<forall>a \<in> F. h' ! a = h ! a)
   \<Longrightarrow> rep_list h' vs ts F"
  "rep_fields h kvs kts F \<Longrightarrow> length h \<le> length h' \<Longrightarrow> (\<forall>a \<in> F. h' ! a = h ! a)
   \<Longrightarrow> rep_fields h' kvs kts F"
proof (induction rule: rep_rep_list_rep_fields.inducts)
  case (rep_arr a h vs ts F)
  then show ?case by (auto intro!: rep_rep_list_rep_fields.intros)
next
  case (rep_obj a h kvs kts F)
  then show ?case by (auto intro!: rep_rep_list_rep_fields.intros)
qed (auto intro: rep_rep_list_rep_fields.intros)

lemma rep_bound:
  "rep h v t F \<Longrightarrow> F \<subseteq> {..<length h}"
  "rep_list h vs ts F \<Longrightarrow> F \<subseteq> {..<length h}"
  "rep_fields h kvs kts F \<Longrightarrow> F \<subseteq> {..<length h}"
  by (induction rule: rep_rep_list_rep_fields.inducts) auto

lemma alloc_rep:
  "alloc t h = (v, h') \<Longrightarrow>
     \<exists>ext F. h' = h @ ext \<and> rep h' v t F \<and> F \<subseteq> {length h..<length h'}"
  "alloc_list ts h = (vs, h') \<Longrightarrow>
     \<exists>ext F. h' = h @ ext \<and> rep_list h' vs ts F \<and> F \<subseteq> {length h..<length h'}"
  "alloc_fields kts h = (kvs, h') \<Longrightarrow>
     \<exists>ext F. h' = h @ ext \<and> rep_fields h' kvs kts F \<and> F \<subseteq> {length h..<length h'}"
proof (induction t h and ts h and kts h arbitrary: v h' and vs h' and kvs h'
       rule: alloc_alloc_list_alloc_fields.induct)
  case (6 ts h)
  obtain vs h1 where a: "alloc_list ts h = (vs, h1)" by (cases "alloc_list ts h")
  from 6(1) [OF a] obtain ext F where
    e: "h1 = h @ ext" "rep_list h1 vs ts F" "F \<subseteq> {length h..<length h1}" by blast
  from 6(2) a have v: "v = HRef (length h1)" "h' = h1 @ [CArr vs]" by auto
  have "rep_list h' vs ts F"
    using e(2,3) by (intro rep_frame(2) [OF e(2)]) (auto simp: v nth_append)
  then have "rep h' (HRef (length h1)) (JArr ts) (insert (length h1) F)"
    using e(3) by (intro rep_arr) (auto simp: v)
  with e v show ?case by (intro exI [of _ "ext @ [CArr vs]"] exI [of _ "insert (length h1) F"]) auto
next
  case (7 kts h)
  obtain kvs h1 where a: "alloc_fields kts h = (kvs, h1)" by (cases "alloc_fields kts h")
  from 7(1) [OF a] obtain ext F where
    e: "h1 = h @ ext" "rep_fields h1 kvs kts F" "F \<subseteq> {length h..<length h1}" by blast
  from 7(2) a have v: "v = HRef (length h1)" "h' = h1 @ [CObj kvs]" by auto
  have "rep_fields h' kvs kts F"
    using e(2,3) by (intro rep_frame(3) [OF e(2)]) (auto simp: v nth_append)
  then have "rep h' (HRef (length h1)) (JObj kts) (insert (length h1) F)"
    using e(3) by (intro rep_obj) (auto simp: v)
  with e v show ?case by (intro exI [of _ "ext @ [CObj kvs]"] exI [of _ "insert (length h1) F"]) auto
next
  case (9 t ts h)
  obtain v1 h1 where a: "alloc t h = (v1, h1)" by (cases "alloc t h")
  obtain vs1 h2 where b: "alloc_list ts h1 = (vs1, h2)" by (cases "alloc_list ts h1")
  from 9(1) [OF a] obtain ext1 F where
    e1: "h1 = h @ ext1" "rep h1 v1 t F" "F \<subseteq> {length h..<length h1}" by blast
  from 9(2) [OF a [symmetric] b] obtain ext2 G where
    e2: "h2 = h1 @ ext2" "rep_list h2 vs1 ts G" "G \<subseteq> {length h1..<length h2}" by blast
  from 9(3) a b have r: "vs = v1 # vs1" "h' = h2" by auto
  have "rep h2 v1 t F"
    using e1(3) by (intro rep_frame(1) [OF e1(2)]) (auto simp: e2(1) nth_append)
  moreover have "F \<inter> G = {}" using e1(3) e2(3) by fastforce
  ultimately have "rep_list h2 (v1 # vs1) (t # ts) (F \<union> G)"
    using e2(2) by (intro rep_list_cons)
  with e1 e2 r show ?case
    by (intro exI [of _ "ext1 @ ext2"] exI [of _ "F \<union> G"]) auto
next
  case (11 k t kts h)
  obtain v1 h1 where a: "alloc t h = (v1, h1)" by (cases "alloc t h")
  obtain kvs1 h2 where b: "alloc_fields kts h1 = (kvs1, h2)" by (cases "alloc_fields kts h1")
  from 11(1) [OF a] obtain ext1 F where
    e1: "h1 = h @ ext1" "rep h1 v1 t F" "F \<subseteq> {length h..<length h1}" by blast
  from 11(2) [OF a [symmetric] b] obtain ext2 G where
    e2: "h2 = h1 @ ext2" "rep_fields h2 kvs1 kts G" "G \<subseteq> {length h1..<length h2}" by blast
  from 11(3) a b have r: "kvs = (k, v1) # kvs1" "h' = h2" by auto
  have "rep h2 v1 t F"
    using e1(3) by (intro rep_frame(1) [OF e1(2)]) (auto simp: e2(1) nth_append)
  moreover have "F \<inter> G = {}" using e1(3) e2(3) by fastforce
  ultimately have "rep_fields h2 ((k, v1) # kvs1) ((k, t) # kts) (F \<union> G)"
    using e2(2) by (intro rep_fields_cons)
  with e1 e2 r show ?case
    by (intro exI [of _ "ext1 @ ext2"] exI [of _ "F \<union> G"]) auto
qed (auto intro: rep_rep_list_rep_fields.intros)

lemma those_map_Some:
  "those (map f xs) = Some ys \<longleftrightarrow> map f xs = map Some ys"
proof (induction xs arbitrary: ys)
  case Nil
  then show ?case by auto
next
  case (Cons x xs)
  then show ?case by (cases "f x"; cases ys) (auto split: option.splits)
qed

lemma read_agree:
  "read n h v = Some t \<Longrightarrow> n \<le> m \<Longrightarrow> length h \<le> length h'
   \<Longrightarrow> (\<forall>a < length h. h' ! a = h ! a) \<Longrightarrow> read m h' v = Some t"
proof (induction n arbitrary: m v t)
  case 0
  then show ?case by (cases v) auto
next
  case (Suc n)
  show ?case
  proof (cases v)
    case (HRef a)
    from Suc.prems(2) obtain m' where m: "m = Suc m'" "n \<le> m'" by (cases m) auto
    from Suc.prems(1) HRef have a: "a < length h" by (auto split: if_splits)
    with Suc.prems have a': "a < length h'" "h' ! a = h ! a" by auto
    have ih: "read n h w = Some u \<Longrightarrow> read m' h' w = Some u" for w u
      using Suc.IH [of w u m'] m(2) Suc.prems(3,4) by blast
    show ?thesis
    proof (cases "h ! a")
      case (CArr vs)
      with Suc.prems(1) HRef a obtain ts where
        ts: "those (map (read n h) vs) = Some ts" "t = JArr ts" by auto
      then have "map (read n h) vs = map Some ts" by (simp add: those_map_Some)
      then have "map (read m' h') vs = map Some ts"
        using ih by (induction vs arbitrary: ts) auto
      with ts CArr HRef a' m show ?thesis by (simp add: those_map_Some [symmetric])
    next
      case (CObj kvs)
      with Suc.prems(1) HRef a obtain kts where
        ts: "those (map (\<lambda>(k, v). map_option (Pair k) (read n h v)) kvs) = Some kts"
        "t = JObj kts" by auto
      then have "map (\<lambda>(k, v). map_option (Pair k) (read n h v)) kvs = map Some kts"
        by (simp add: those_map_Some)
      then have "map (\<lambda>(k, v). map_option (Pair k) (read m' h' v)) kvs = map Some kts"
        using ih by (induction kvs arbitrary: kts) auto
      with ts CObj HRef a' m show ?thesis by (simp add: those_map_Some [symmetric])
    qed
  qed (use Suc.prems in auto)
qed

lemma rep_read:
  "rep h v t F \<Longrightarrow> finite F \<and> read (Suc (card F)) h v = Some t"
  "rep_list h vs ts F \<Longrightarrow> finite F \<and> map (read (Suc (card F)) h) vs = map Some ts"
  "rep_fields h kvs kts F \<Longrightarrow>
     finite F \<and> map (\<lambda>(k, v). map_option (Pair k) (read (Suc (card F)) h v)) kvs = map Some kts"
proof (induction rule: rep_rep_list_rep_fields.inducts)
  case (rep_arr a h vs ts F)
  then have f: "finite F" and "map (read (Suc (card F)) h) vs = map Some ts" by auto
  then have "those (map (read (Suc (card F)) h) vs) = Some ts"
    by (simp only: those_map_Some)
  with f rep_arr.hyps show ?case by simp
next
  case (rep_obj a h kvs kts F)
  then have f: "finite F"
    and "map (\<lambda>(k, v). map_option (Pair k) (read (Suc (card F)) h v)) kvs = map Some kts"
    by auto
  then have "those (map (\<lambda>(k, v). map_option (Pair k) (read (Suc (card F)) h v)) kvs) = Some kts"
    by (simp only: those_map_Some)
  with f rep_obj.hyps show ?case by simp
next
  case (rep_list_cons h v t F vs ts G)
  then have f: "finite F" "finite G" by auto
  have 1: "read (Suc (card (F \<union> G))) h v = Some t"
    by (rule read_agree [of "Suc (card F)" h v t])
       (use rep_list_cons.IH f in \<open>auto intro: card_mono\<close>)
  have "read (Suc (card G)) h w = Some u \<Longrightarrow> read (Suc (card (F \<union> G))) h w = Some u" for w u
    by (rule read_agree [of "Suc (card G)" h w u]) (use f in \<open>auto intro: card_mono\<close>)
  with rep_list_cons.IH have 2: "map (read (Suc (card (F \<union> G))) h) vs = map Some ts"
    by (induction vs arbitrary: ts) auto
  from 1 2 f show ?case by simp
next
  case (rep_fields_cons h v t F kvs kts G k)
  then have f: "finite F" "finite G" by auto
  have 1: "read (Suc (card (F \<union> G))) h v = Some t"
    by (rule read_agree [of "Suc (card F)" h v t])
       (use rep_fields_cons.IH f in \<open>auto intro: card_mono\<close>)
  have "read (Suc (card G)) h w = Some u \<Longrightarrow> read (Suc (card (F \<union> G))) h w = Some u" for w u
    by (rule read_agree [of "Suc (card G)" h w u]) (use f in \<open>auto intro: card_mono\<close>)
  with rep_fields_cons.IH
  have 2: "map (\<lambda>(k, v). map_option (Pair k) (read (Suc (card (F \<union> G))) h v)) kvs = map Some kts"
    by (induction kvs arbitrary: kts) auto
  from 1 2 f show ?case by simp
qed simp_all

lemma rep_stringify:
  assumes "rep h v t F"
  shows "stringify h v = Inr t"
proof -
  from rep_read(1) [OF assms] have f: "finite F" and r: "read (Suc (card F)) h v = Some t"
    by auto
  from rep_bound(1) [OF assms] have "card F \<le> card {..<length h}"
    by (intro card_mono) auto
  then have c: "card F \<le> length h" by simp
  have "read (Suc (length h)) h v = Some t"
    by (rule read_agree [OF r]) (use c in auto)
  then show ?thesis by (simp add: stringify_def)
qed

lemma stringify_extend:
  assumes "stringify h v = Inr t" "length h \<le> length h'" "\<forall>a < length h. h' ! a = h ! a"
  shows "stringify h' v = Inr t"
proof -
  from assms(1) have "read (Suc (length h)) h v = Some t"
    by (auto simp: stringify_def split: option.splits)
  then have "read (Suc (length h')) h' v = Some t"
    by (rule read_agree) (use assms(2,3) in auto)
  then show ?thesis by (simp add: stringify_def)
qed

text \<open>
  The fuel of \<open>stringify\<close> is enough: a walk that ends with some fuel ends with as much
  fuel as the heap has cells, and a walk from a cell in a set that loops does not end.
\<close>

lemma those_map_None: "those (map f xs) = None \<longleftrightarrow> (\<exists>x \<in> set xs. f x = None)"
  by (induction xs) (auto split: option.splits)

lemma read_scalar: "(\<And>a. v \<noteq> HRef a) \<Longrightarrow> read n h v \<noteq> None"
  by (cases v; cases n) auto

lemma read_Suc_None:
  "read (Suc n) h (HRef a) = None \<longleftrightarrow>
     a \<ge> length h \<or> (\<exists>v \<in> set (cell_values (h ! a)). read n h v = None)"
proof (cases "a < length h")
  case True
  show ?thesis
  proof (cases "h ! a")
    case (CArr vs)
    with True show ?thesis by (simp add: those_map_None)
  next
    case (CObj kvs)
    have "(\<exists>x \<in> set kvs. (case x of (k, v) \<Rightarrow> map_option (Pair k) (read n h v)) = None)
          \<longleftrightarrow> (\<exists>v \<in> set (map snd kvs). read n h v = None)"
      by force
    with CObj True show ?thesis by (simp add: those_map_None)
  qed
qed simp

lemma read_loops: "loops h C \<Longrightarrow> a \<in> C \<Longrightarrow> read n h (HRef a) = None"
proof (induction n arbitrary: a)
  case 0
  then show ?case by simp
next
  case (Suc n)
  from Suc.prems obtain b where "b \<in> C" "HRef b \<in> set (cell_values (h ! a))"
    unfolding loops_def by blast
  with Suc.IH [OF Suc.prems(1), of b] show ?case
    unfolding read_Suc_None by blast
qed

text \<open>The addresses at which reading fails with a given fuel.\<close>

lemma read_mono_None: "read (Suc n) h v = None \<Longrightarrow> read n h v = None"
proof (rule ccontr)
  assume a: "read (Suc n) h v = None" and "read n h v \<noteq> None"
  then obtain t where "read n h v = Some t" by blast
  from read_agree [OF this, of "Suc n" h] a show False by simp
qed

lemma read_None_HRef: "read n h v = None \<Longrightarrow> \<exists>a. v = HRef a"
  using read_scalar [of v n h] by blast

lemma failing_step:
  "{a. read (Suc n) h (HRef a) = None}
     = {a. a \<ge> length h \<or> (\<exists>b. HRef b \<in> set (cell_values (h ! a)) \<and> read n h (HRef b) = None)}"
proof -
  have "(\<exists>v \<in> set (cell_values (h ! a)). read n h v = None)
        \<longleftrightarrow> (\<exists>b. HRef b \<in> set (cell_values (h ! a)) \<and> read n h (HRef b) = None)" for a
    using read_None_HRef by blast
  then show ?thesis unfolding read_Suc_None by simp
qed

lemma failing_stable:
  assumes "{a. read (Suc n) h (HRef a) = None} = {a. read n h (HRef a) = None}"
  shows "{a. read (n + k) h (HRef a) = None} = {a. read n h (HRef a) = None}"
proof (induction k)
  case 0
  then show ?case by simp
next
  case (Suc k)
  have "{a. read (Suc (n + k)) h (HRef a) = None}
        = {a. a \<ge> length h \<or> (\<exists>b. HRef b \<in> set (cell_values (h ! a))
                                   \<and> b \<in> {a. read (n + k) h (HRef a) = None})}"
    unfolding failing_step by simp
  also have "\<dots> = {a. a \<ge> length h \<or> (\<exists>b. HRef b \<in> set (cell_values (h ! a))
                                   \<and> b \<in> {a. read n h (HRef a) = None})}"
    unfolding Suc ..
  also have "\<dots> = {a. read (Suc n) h (HRef a) = None}"
    unfolding failing_step by simp
  finally show ?case using assms by simp
qed

lemma failing_card:
  assumes "\<forall>n < k. {a. read (Suc n) h (HRef a) = None} \<noteq> {a. read n h (HRef a) = None}"
  shows "card ({a. read k h (HRef a) = None} \<inter> {..<length h}) + k \<le> length h"
  using assms
proof (induction k)
  case 0
  then show ?case by (simp add: card_mono [of "{..<length h}", simplified])
next
  case (Suc k)
  let ?D = "\<lambda>n. {a. read n h (HRef a) = None}"
  from Suc have ih: "card (?D k \<inter> {..<length h}) + k \<le> length h" by simp
  have sub: "?D (Suc k) \<subseteq> ?D k" using read_mono_None by blast
  from Suc.prems have ne: "?D (Suc k) \<noteq> ?D k" by simp
  have out: "a \<in> ?D n" if "a \<ge> length h" for a n
    using that by (cases n) simp_all
  have "?D (Suc k) \<inter> {..<length h} \<noteq> ?D k \<inter> {..<length h}"
  proof
    assume e: "?D (Suc k) \<inter> {..<length h} = ?D k \<inter> {..<length h}"
    have "?D k \<subseteq> ?D (Suc k)"
    proof
      fix a assume a: "a \<in> ?D k"
      show "a \<in> ?D (Suc k)"
      proof (cases "a < length h")
        case True
        with a e show ?thesis by blast
      next
        case False
        then show ?thesis using out [of a "Suc k"] by simp
      qed
    qed
    with sub ne show False by blast
  qed
  with sub have "?D (Suc k) \<inter> {..<length h} \<subset> ?D k \<inter> {..<length h}" by blast
  then have "card (?D (Suc k) \<inter> {..<length h}) < card (?D k \<inter> {..<length h})"
    by (intro psubset_card_mono) simp_all
  with ih show ?case by simp
qed

text \<open>Reading with more fuel than the heap has cells does not help.\<close>

lemma read_enough:
  assumes "read n h v = Some t"
  shows "read (Suc (length h)) h v = Some t"
proof (cases "n \<le> Suc (length h)")
  case True
  from read_agree [OF assms True] show ?thesis by simp
next
  case False
  let ?D = "\<lambda>n. {a. read n h (HRef a) = None}"
  have "\<exists>k \<le> length h. ?D (Suc k) = ?D k"
  proof (rule ccontr)
    assume "\<not> (\<exists>k \<le> length h. ?D (Suc k) = ?D k)"
    then have "\<forall>k < Suc (length h). ?D (Suc k) \<noteq> ?D k" by auto
    from failing_card [OF this] show False by simp
  qed
  then obtain k where k: "k \<le> length h" "?D (Suc k) = ?D k" by blast
  from failing_stable [OF k(2)] have st: "?D (k + j) = ?D k" for j .
  have eq: "?D n = ?D (Suc (length h))"
  proof -
    from False k(1) have "n = k + (n - k)" "Suc (length h) = k + (Suc (length h) - k)" by simp_all
    then show ?thesis using st by metis
  qed
  show ?thesis
  proof (cases "read (Suc (length h)) h v")
    case None
    then obtain a where a: "v = HRef a" using read_None_HRef by blast
    with None have "a \<in> ?D (Suc (length h))" by simp
    with eq have "a \<in> ?D n" by simp
    with a assms show ?thesis by simp
  next
    case (Some u)
    from read_agree [OF Some, of n h] False have "read n h v = Some u" by simp
    with assms Some show ?thesis by simp
  qed
qed

lemma stringify_iff: "stringify h v = Inr t \<longleftrightarrow> (\<exists>n. read n h v = Some t)"
proof
  assume "stringify h v = Inr t"
  then show "\<exists>n. read n h v = Some t"
    by (auto simp: stringify_def split: option.splits)
next
  assume "\<exists>n. read n h v = Some t"
  then obtain n where "read n h v = Some t" by blast
  from read_enough [OF this] show "stringify h v = Inr t" by (simp add: stringify_def)
qed

lemma stringify_loops:
  assumes "loops h C" and "a \<in> C"
  shows "stringify h (HRef a) = Inl TypeError"
proof -
  from read_loops [OF assms] have "read (Suc (length h)) h (HRef a) = None" .
  then show ?thesis unfolding stringify_def by (simp only: option.case)
qed

subsection \<open>Reads and deletions on a tree in the heap\<close>

inductive_cases rep_fields_NilE: "rep_fields h [] kts F"
inductive_cases rep_fields_ConsE: "rep_fields h (kv # kvs) kts F"
inductive_cases rep_JObjE: "rep h v (JObj kts) F"
inductive_cases rep_JArrE: "rep h v (JArr ts) F"
inductive_cases rep_JUndefinedE: "rep h v JUndefined F"
inductive_cases rep_JNullE: "rep h v JNull F"
inductive_cases rep_JBoolE: "rep h v (JBool b) F"
inductive_cases rep_JNumE: "rep h v (JNum i) F"
inductive_cases rep_JDateE: "rep h v (JDate d) F"
inductive_cases rep_JStrE: "rep h v (JStr s) F"
inductive_cases rep_HUndefinedE: "rep h HUndefined t F"
inductive_cases rep_HNullE: "rep h HNull t F"

lemma hlookup_Nil [simp]: "hlookup [] k = HUndefined"
  by (simp add: hlookup_def)

lemma hlookup_Cons [simp]: "hlookup ((k', v) # kvs) k = (if k' = k then v else hlookup kvs k)"
  by (simp add: hlookup_def)

lemma rep_fields_lookup:
  "rep_fields h kvs kts F \<Longrightarrow> \<exists>G. rep h (hlookup kvs k) (lookup kts k) G \<and> G \<subseteq> F"
proof (induction kvs arbitrary: kts F)
  case Nil
  then show ?case by (auto elim!: rep_fields_NilE intro: rep_undefined)
next
  case (Cons kv kvs)
  from Cons.prems obtain k' v t kts' F1 G1 where
    e: "kv = (k', v)" "kts = (k', t) # kts'" "F = F1 \<union> G1" "rep h v t F1"
       "rep_fields h kvs kts' G1"
    by (auto elim!: rep_fields_ConsE)
  show ?case
  proof (cases "k' = k")
    case True
    with e show ?thesis by auto
  next
    case False
    from Cons.IH [OF e(5)] obtain G where "rep h (hlookup kvs k) (lookup kts' k) G" "G \<subseteq> G1"
      by blast
    with e False show ?thesis by auto
  qed
qed

lemma rep_fields_filter:
  "rep_fields h kvs kts F \<Longrightarrow>
     \<exists>F'. rep_fields h (filter (\<lambda>(k, w). P k) kvs) (filter (\<lambda>(k, w). P k) kts) F' \<and> F' \<subseteq> F"
proof (induction kvs arbitrary: kts F)
  case Nil
  then show ?case by (auto elim!: rep_fields_NilE intro: rep_fields_nil)
next
  case (Cons kv kvs)
  from Cons.prems obtain k' v t kts' F1 G1 where
    e: "kv = (k', v)" "kts = (k', t) # kts'" "F = F1 \<union> G1" "rep h v t F1"
       "rep_fields h kvs kts' G1" "F1 \<inter> G1 = {}"
    by (auto elim!: rep_fields_ConsE)
  from Cons.IH [OF e(5)] obtain G' where
    g: "rep_fields h (filter (\<lambda>(k, w). P k) kvs) (filter (\<lambda>(k, w). P k) kts') G'" "G' \<subseteq> G1"
    by blast
  show ?case
  proof (cases "P k'")
    case True
    from e(6) g(2) have "F1 \<inter> G' = {}" by auto
    from rep_fields_cons [OF e(4) g(1) this, of k'] e g(2) True show ?thesis
      by (intro exI [of _ "F1 \<union> G'"]) auto
  next
    case False
    with e g show ?thesis by (intro exI [of _ G']) auto
  qed
qed

lemma rep_fields_update:
  "rep_fields h kvs kts F0 \<Longrightarrow> lookup kts f \<noteq> JUndefined \<Longrightarrow>
     \<exists>G. rep h (hlookup kvs f) (lookup kts f) G \<and> G \<subseteq> F0 \<and>
         (\<forall>h' m' G'. length h' = length h \<and> (\<forall>a. a \<notin> G \<longrightarrow> h' ! a = h ! a) \<and>
                     rep h' (hlookup kvs f) m' G' \<and> G' \<subseteq> G
            \<longrightarrow> (\<exists>F1. rep_fields h' kvs (set_prop kts f m') F1 \<and> F1 \<subseteq> F0))"
proof (induction kvs arbitrary: kts F0)
  case Nil
  from Nil(1) have "kts = []" by (rule rep_fields_NilE)
  with Nil(2) show ?case by simp
next
  case (Cons kv kvs)
  from Cons.prems(1) obtain k' v t kts' F1 G1 where
    e: "kv = (k', v)" "kts = (k', t) # kts'" "F0 = F1 \<union> G1" "rep h v t F1"
       "rep_fields h kvs kts' G1" "F1 \<inter> G1 = {}"
    by (rule rep_fields_ConsE) blast
  show ?case
  proof (cases "k' = f")
    case True
    have r: "rep h (hlookup (kv # kvs) f) (lookup kts f) F1"
      using e(1,2,4) True by simp
    have s: "F1 \<subseteq> F0" using e(3) by simp
    have u: "\<forall>h' m' G'. length h' = length h \<and> (\<forall>a. a \<notin> F1 \<longrightarrow> h' ! a = h ! a) \<and>
                     rep h' (hlookup (kv # kvs) f) m' G' \<and> G' \<subseteq> F1
            \<longrightarrow> (\<exists>F2. rep_fields h' (kv # kvs) (set_prop kts f m') F2 \<and> F2 \<subseteq> F0)"
    proof (intro allI impI, elim conjE)
      fix h' m' G'
      assume a: "length h' = length h" "\<forall>a. a \<notin> F1 \<longrightarrow> h' ! a = h ! a"
        "rep h' (hlookup (kv # kvs) f) m' G'" "G' \<subseteq> F1"
      from a(3) e(1) True have v: "rep h' v m' G'" by simp
      have "\<forall>a \<in> G1. h' ! a = h ! a" using a(2) e(6) by blast
      then have "rep_fields h' kvs kts' G1"
        using a(1) by (intro rep_frame(3) [OF e(5)]) simp_all
      moreover from a(4) e(6) have "G' \<inter> G1 = {}" by blast
      ultimately have "rep_fields h' ((f, v) # kvs) ((f, m') # kts') (G' \<union> G1)"
        using v by (intro rep_fields_cons)
      moreover have "set_prop kts f m' = (f, m') # kts'" using e(2) True by simp
      moreover have "G' \<union> G1 \<subseteq> F0" using a(4) e(3) by blast
      ultimately show "\<exists>F2. rep_fields h' (kv # kvs) (set_prop kts f m') F2 \<and> F2 \<subseteq> F0"
        using e(1) True by auto
    qed
    from r s u show ?thesis by blast
  next
    case False
    with Cons.prems(2) e(2) have "lookup kts' f \<noteq> JUndefined" by simp
    from Cons.IH [OF e(5) this] obtain G where
      g: "rep h (hlookup kvs f) (lookup kts' f) G" "G \<subseteq> G1"
      and u: "\<forall>h' m' G'. length h' = length h \<and> (\<forall>a. a \<notin> G \<longrightarrow> h' ! a = h ! a) \<and>
                rep h' (hlookup kvs f) m' G' \<and> G' \<subseteq> G
                \<longrightarrow> (\<exists>F1. rep_fields h' kvs (set_prop kts' f m') F1 \<and> F1 \<subseteq> G1)"
      by blast
    have r: "rep h (hlookup (kv # kvs) f) (lookup kts f) G"
      using e(1,2) g(1) False by simp
    have s: "G \<subseteq> F0" using e(3) g(2) by blast
    have u': "\<forall>h' m' G'. length h' = length h \<and> (\<forall>a. a \<notin> G \<longrightarrow> h' ! a = h ! a) \<and>
                     rep h' (hlookup (kv # kvs) f) m' G' \<and> G' \<subseteq> G
            \<longrightarrow> (\<exists>F2. rep_fields h' (kv # kvs) (set_prop kts f m') F2 \<and> F2 \<subseteq> F0)"
    proof (intro allI impI, elim conjE)
      fix h' m' G'
      assume a: "length h' = length h" "\<forall>a. a \<notin> G \<longrightarrow> h' ! a = h ! a"
        "rep h' (hlookup (kv # kvs) f) m' G'" "G' \<subseteq> G"
      from a(3) e(1) False have "rep h' (hlookup kvs f) m' G'" by simp
      with u a(1,2,4) obtain F1' where
        f1: "rep_fields h' kvs (set_prop kts' f m') F1'" "F1' \<subseteq> G1" by blast
      have "\<forall>a \<in> F1. h' ! a = h ! a" using a(2) g(2) e(6) by blast
      then have "rep h' v t F1"
        using a(1) by (intro rep_frame(1) [OF e(4)]) simp_all
      moreover from f1(2) e(6) have "F1 \<inter> F1' = {}" by blast
      ultimately have "rep_fields h' ((k', v) # kvs) ((k', t) # set_prop kts' f m') (F1 \<union> F1')"
        using f1(1) by (intro rep_fields_cons)
      moreover have "set_prop kts f m' = (k', t) # set_prop kts' f m'"
        using e(2) False by simp
      moreover have "F1 \<union> F1' \<subseteq> F0" using f1(2) e(3) by blast
      ultimately show "\<exists>F2. rep_fields h' (kv # kvs) (set_prop kts f m') F2 \<and> F2 \<subseteq> F0"
        using e(1) by auto
    qed
    from r s u' show ?thesis by blast
  qed
qed

lemma sim_delete:
  assumes "rep h v t F" and "delete_prop t k = Inr t'"
  shows "\<exists>h' F'. hdelete h v k = Inr h' \<and> rep h' v t' F' \<and> F' \<subseteq> F
           \<and> length h' = length h \<and> (\<forall>a. a \<notin> F \<longrightarrow> h' ! a = h ! a)"
proof (cases t)
  case JUndefined
  with assms(2) show ?thesis by simp
next
  case JNull
  with assms(2) show ?thesis by simp
next
  case (JBool b)
  with assms have "v = HBool b" "t' = t" by (auto elim: rep_JBoolE)
  with assms(1) show ?thesis by (auto simp: hdelete_def)
next
  case (JNum i)
  with assms have "v = HNum i" "t' = t" by (auto elim: rep_JNumE)
  with assms(1) show ?thesis by (auto simp: hdelete_def)
next
  case (JStr s)
  with assms have "v = HStr s" "t' = t" by (auto elim: rep_JStrE)
  with assms(1) show ?thesis by (auto simp: hdelete_def)
next
  case (JDate d)
  with assms have "v = HDate d" "t' = t" by (auto elim: rep_JDateE)
  with assms(1) show ?thesis by (auto simp: hdelete_def)
next
  case (JArr ts)
  with assms(1) obtain a vs where "v = HRef a" "a < length h" "h ! a = CArr vs"
    by (auto elim: rep_JArrE)
  moreover from JArr assms(2) have "t' = t" by simp
  ultimately show ?thesis using assms(1) by (auto simp: hdelete_def)
next
  case (JObj kts)
  with assms(1) obtain a kvs F0 where
    e: "v = HRef a" "a < length h" "h ! a = CObj kvs" "rep_fields h kvs kts F0" "a \<notin> F0"
       "F = insert a F0"
    by (auto elim: rep_JObjE)
  let ?kvs' = "filter (\<lambda>(k', w). k' \<noteq> k) kvs"
  let ?h' = "h[a := CObj ?kvs']"
  from JObj assms(2) have t': "t' = JObj (filter (\<lambda>(k', w). k' \<noteq> k) kts)" by auto
  from rep_fields_filter [OF e(4), of "\<lambda>k'. k' \<noteq> k"] obtain F1 where
    f: "rep_fields h ?kvs' (filter (\<lambda>(k', w). k' \<noteq> k) kts) F1" "F1 \<subseteq> F0"
    by blast
  have "a \<noteq> b" if "b \<in> F1" for b using that f(2) e(5) by blast
  then have "\<forall>b \<in> F1. ?h' ! b = h ! b" by (auto simp: nth_list_update_neq)
  then have "rep_fields ?h' ?kvs' (filter (\<lambda>(k', w). k' \<noteq> k) kts) F1"
    by (intro rep_frame(3) [OF f(1)]) simp_all
  moreover have "a < length ?h'" "?h' ! a = CObj ?kvs'" "a \<notin> F1"
    using e(2,5) f(2) by auto
  ultimately have "rep ?h' (HRef a) t' (insert a F1)"
    unfolding t' by (intro rep_obj)
  moreover have "hdelete h v k = Inr ?h'" using e(1,2,3) by (simp add: hdelete_def)
  moreover have "insert a F1 \<subseteq> F" using e(6) f(2) by auto
  moreover have "\<forall>b. b \<notin> F \<longrightarrow> ?h' ! b = h ! b" using e(6) by auto
  ultimately show ?thesis using e(1) by (intro exI [of _ ?h'] exI [of _ "insert a F1"]) simp
qed

lemma rep_hget:
  assumes "rep h v t F" and "get t f = Inr m"
  shows "\<exists>mv G. hget h v f = Inr mv \<and> rep h mv m G \<and> G \<subseteq> F"
proof (cases t)
  case JUndefined
  with assms(2) show ?thesis by simp
next
  case JNull
  with assms(2) show ?thesis by simp
next
  case (JBool b)
  with assms have "v = HBool b" "m = JUndefined" by (auto elim: rep_JBoolE)
  then show ?thesis by (auto simp: hget_def intro: rep_undefined)
next
  case (JNum i)
  with assms have "v = HNum i" "m = JUndefined" by (auto elim: rep_JNumE)
  then show ?thesis by (auto simp: hget_def intro: rep_undefined)
next
  case (JStr s)
  with assms have "v = HStr s" "m = JUndefined" by (auto elim: rep_JStrE)
  then show ?thesis by (auto simp: hget_def intro: rep_undefined)
next
  case (JDate d)
  with assms have "v = HDate d" "m = JUndefined" by (auto elim: rep_JDateE)
  then show ?thesis by (auto simp: hget_def intro: rep_undefined)
next
  case (JArr ts)
  with assms(1) obtain a vs where "v = HRef a" "a < length h" "h ! a = CArr vs"
    by (auto elim: rep_JArrE)
  moreover from JArr assms(2) have "m = JUndefined" by auto
  ultimately show ?thesis by (auto simp: hget_def intro: rep_undefined)
next
  case (JObj kts)
  with assms(1) obtain a kvs F0 where
    e: "v = HRef a" "a < length h" "h ! a = CObj kvs" "rep_fields h kvs kts F0" "a \<notin> F0"
       "F = insert a F0"
    by (auto elim: rep_JObjE)
  from JObj assms(2) have m: "m = lookup kts f" by auto
  from rep_fields_lookup [OF e(4), of f] obtain G where
    "rep h (hlookup kvs f) (lookup kts f) G" "G \<subseteq> F0" by blast
  with e m show ?thesis by (auto simp: hget_def)
qed

lemma rep_update_field:
  assumes "rep h v t F" and "get t f = Inr m" and "m \<noteq> JUndefined"
  shows "\<exists>mv G. hget h v f = Inr mv \<and> rep h mv m G \<and> G \<subseteq> F \<and>
           (\<forall>h' m' G'. length h' = length h \<and> (\<forall>a. a \<notin> G \<longrightarrow> h' ! a = h ! a) \<and>
                       rep h' mv m' G' \<and> G' \<subseteq> G
              \<longrightarrow> (\<exists>F'. rep h' v (store t f m') F' \<and> F' \<subseteq> F))"
proof -
  from assms(2,3) obtain kts where t: "t = JObj kts" and m: "m = lookup kts f"
    by (cases t) auto
  from assms(1) t obtain a kvs F0 where
    e: "v = HRef a" "a < length h" "h ! a = CObj kvs" "rep_fields h kvs kts F0" "a \<notin> F0"
       "F = insert a F0"
    by (auto elim: rep_JObjE)
  from assms(3) m have "lookup kts f \<noteq> JUndefined" by simp
  from rep_fields_update [OF e(4) this] obtain G where
    g: "rep h (hlookup kvs f) (lookup kts f) G" "G \<subseteq> F0"
    and u: "\<forall>h' m' G'. length h' = length h \<and> (\<forall>a. a \<notin> G \<longrightarrow> h' ! a = h ! a) \<and>
                     rep h' (hlookup kvs f) m' G' \<and> G' \<subseteq> G
            \<longrightarrow> (\<exists>F1. rep_fields h' kvs (set_prop kts f m') F1 \<and> F1 \<subseteq> F0)"
    by blast
  have hg: "hget h v f = Inr (hlookup kvs f)" using e(1,2,3) by (simp add: hget_def)
  have r: "rep h (hlookup kvs f) m G" using g(1) m by simp
  have s: "G \<subseteq> F" using g(2) e(6) by blast
  have u': "\<forall>h' m' G'. length h' = length h \<and> (\<forall>a. a \<notin> G \<longrightarrow> h' ! a = h ! a) \<and>
                       rep h' (hlookup kvs f) m' G' \<and> G' \<subseteq> G
              \<longrightarrow> (\<exists>F'. rep h' v (store t f m') F' \<and> F' \<subseteq> F)"
  proof (intro allI impI, elim conjE)
    fix h' m' G'
    assume a: "length h' = length h" "\<forall>a. a \<notin> G \<longrightarrow> h' ! a = h ! a"
      "rep h' (hlookup kvs f) m' G'" "G' \<subseteq> G"
    with u obtain F1 where f1: "rep_fields h' kvs (set_prop kts f m') F1" "F1 \<subseteq> F0"
      by blast
    have "a \<notin> G" using g(2) e(5) by blast
    with a(2) e(3) have "h' ! a = CObj kvs" by simp
    moreover have "a < length h'" using a(1) e(2) by simp
    moreover have "a \<notin> F1" using f1(2) e(5) by blast
    ultimately have "rep h' (HRef a) (JObj (set_prop kts f m')) (insert a F1)"
      using f1(1) by (intro rep_obj)
    moreover have "insert a F1 \<subseteq> F" using f1(2) e(6) by blast
    ultimately show "\<exists>F'. rep h' v (store t f m') F' \<and> F' \<subseteq> F"
      using e(1) t by auto
  qed
  from hg r s u' show ?thesis by blast
qed

lemma sim_delete_in:
  assumes "rep h copy t F" and "delete_in t f k = Inr t'"
  shows "\<exists>h' F'. hdelete_in h copy f k = Inr h' \<and> rep h' copy t' F' \<and> F' \<subseteq> F
           \<and> length h' = length h \<and> (\<forall>a. a \<notin> F \<longrightarrow> h' ! a = h ! a)"
proof -
  from assms(2) obtain m m' where
    d: "get t f = Inr m" "delete_prop m k = Inr m'" "t' = store t f m'"
    by (auto simp: delete_in_def bindE_eq_Inr)
  from d(2) have "m \<noteq> JUndefined" by auto
  from rep_update_field [OF assms(1) d(1) this] obtain mv G where
    g: "hget h copy f = Inr mv" "rep h mv m G" "G \<subseteq> F"
    and u: "\<forall>h' m' G'. length h' = length h \<and> (\<forall>a. a \<notin> G \<longrightarrow> h' ! a = h ! a) \<and>
                       rep h' mv m' G' \<and> G' \<subseteq> G
              \<longrightarrow> (\<exists>F'. rep h' copy (store t f m') F' \<and> F' \<subseteq> F)"
    by blast
  from sim_delete [OF g(2) d(2)] obtain h' G' where
    s: "hdelete h mv k = Inr h'" "rep h' mv m' G'" "G' \<subseteq> G" "length h' = length h"
       "\<forall>a. a \<notin> G \<longrightarrow> h' ! a = h ! a"
    by blast
  with u obtain F' where f: "rep h' copy (store t f m') F'" "F' \<subseteq> F" by blast
  have "hdelete_in h copy f k = Inr h'" using g(1) s(1) by (simp add: hdelete_in_def)
  moreover have "\<forall>a. a \<notin> F \<longrightarrow> h' ! a = h ! a" using s(5) g(3) by blast
  ultimately show ?thesis using f s(4) d(3) by blast
qed

lemma sim_delete_annotation:
  assumes "rep h copy t F" and "delete_annotation t k = Inr t'"
  shows "\<exists>h' F'. hdelete_annotation h copy k = Inr h' \<and> rep h' copy t' F' \<and> F' \<subseteq> F
           \<and> length h' = length h \<and> (\<forall>a. a \<notin> F \<longrightarrow> h' ! a = h ! a)"
proof -
  from assms(2) obtain m an where
    d: "get t ''metadata'' = Inr m" "get m ''annotations'' = Inr an"
    and r: "(if an = JUndefined \<or> an = JNull then Inr t
             else bindE (delete_prop an k) (\<lambda>a'. Inr (store t ''metadata''
                    (store m ''annotations'' a')))) = Inr t'"
    by (auto simp: delete_annotation_def bindE_eq_Inr)
  from d(2) have "m \<noteq> JUndefined" by auto
  from rep_update_field [OF assms(1) d(1) this] obtain mv G where
    g: "hget h copy ''metadata'' = Inr mv" "rep h mv m G" "G \<subseteq> F"
    and u1: "\<forall>h' m' G'. length h' = length h \<and> (\<forall>a. a \<notin> G \<longrightarrow> h' ! a = h ! a) \<and>
                       rep h' mv m' G' \<and> G' \<subseteq> G
              \<longrightarrow> (\<exists>F'. rep h' copy (store t ''metadata'' m') F' \<and> F' \<subseteq> F)"
    by blast
  show ?thesis
  proof (cases "an = JUndefined \<or> an = JNull")
    case True
    from rep_hget [OF g(2) d(2)] obtain av G2 where
      a: "hget h mv ''annotations'' = Inr av" "rep h av an G2" by blast
    from True a(2) have "av = HUndefined \<or> av = HNull"
      by (auto elim: rep_JUndefinedE rep_JNullE)
    with g(1) a(1) have "hdelete_annotation h copy k = Inr h"
      by (auto simp: hdelete_annotation_def)
    moreover from True r have "t' = t" by auto
    ultimately show ?thesis using assms(1) by blast
  next
    case False
    with r obtain a' where a': "delete_prop an k = Inr a'"
      and t': "t' = store t ''metadata'' (store m ''annotations'' a')"
      by (auto simp: bindE_eq_Inr)
    from False have "an \<noteq> JUndefined" by simp
    from rep_update_field [OF g(2) d(2) this] obtain av G2 where
      a: "hget h mv ''annotations'' = Inr av" "rep h av an G2" "G2 \<subseteq> G"
      and u2: "\<forall>h' m' G'. length h' = length h \<and> (\<forall>a. a \<notin> G2 \<longrightarrow> h' ! a = h ! a) \<and>
                       rep h' av m' G' \<and> G' \<subseteq> G2
              \<longrightarrow> (\<exists>F'. rep h' mv (store m ''annotations'' m') F' \<and> F' \<subseteq> G)"
      by blast
    from False a(2) have n: "av \<noteq> HUndefined" "av \<noteq> HNull"
      by (auto elim: rep_HUndefinedE rep_HNullE)
    from sim_delete [OF a(2) a'] obtain h' G2' where
      s: "hdelete h av k = Inr h'" "rep h' av a' G2'" "G2' \<subseteq> G2" "length h' = length h"
         "\<forall>a. a \<notin> G2 \<longrightarrow> h' ! a = h ! a"
      by blast
    with u2 obtain G' where m': "rep h' mv (store m ''annotations'' a') G'" "G' \<subseteq> G"
      by blast
    have "\<forall>a. a \<notin> G \<longrightarrow> h' ! a = h ! a" using s(5) a(3) by blast
    with u1 s(4) m' obtain F' where
      f: "rep h' copy (store t ''metadata'' (store m ''annotations'' a')) F'" "F' \<subseteq> F"
      by blast
    have "hdelete_annotation h copy k = Inr h'"
      using g(1) a(1) n s(1) by (simp add: hdelete_annotation_def)
    moreover have "\<forall>a. a \<notin> F \<longrightarrow> h' ! a = h ! a" using s(5) a(3) g(3) by blast
    ultimately show ?thesis using f s(4) t' by blast
  qed
qed

lemma sim_step:
  assumes "rep hh copy tt FF" "FF \<subseteq> F0" "length hh = n" "\<forall>a. a \<notin> F0 \<longrightarrow> hh ! a = h0 ! a"
    and "\<exists>h' F'. step = Inr h' \<and> rep h' copy tt' F' \<and> F' \<subseteq> FF
           \<and> length h' = length hh \<and> (\<forall>a. a \<notin> FF \<longrightarrow> h' ! a = hh ! a)"
  shows "\<exists>h' F'. step = Inr h' \<and> rep h' copy tt' F' \<and> F' \<subseteq> F0
           \<and> length h' = n \<and> (\<forall>a. a \<notin> F0 \<longrightarrow> h' ! a = h0 ! a)"
proof -
  from assms(5) obtain h' F' where
    s: "step = Inr h'" "rep h' copy tt' F'" "F' \<subseteq> FF" "length h' = length hh"
       "\<forall>a. a \<notin> FF \<longrightarrow> h' ! a = hh ! a"
    by (elim exE conjE)
  have 1: "F' \<subseteq> F0" using s(3) assms(2) by (rule subset_trans)
  have 2: "length h' = n" using s(4) assms(3) by simp
  have 3: "\<forall>a. a \<notin> F0 \<longrightarrow> h' ! a = h0 ! a"
  proof (intro allI impI)
    fix a assume a: "a \<notin> F0"
    with assms(2) have "a \<notin> FF" by (auto simp: subset_iff)
    with s(5) have "h' ! a = hh ! a" by simp
    with a assms(4) show "h' ! a = h0 ! a" by simp
  qed
  show ?thesis
    by (intro exI [of _ h'] exI [of _ F'] conjI s(1) s(2) 1 2 3)
qed

text \<open>
  The heap run of \<open>cleanKesItem\<close> simulates the run on trees: the copy it returns is the
  root of a tree made of new cells only, which denotes the result on trees, and no cell
  of the heap before the call is changed.
\<close>

lemma cleanKesItem_heap_sim:
  assumes "stringify h item = Inr t" and "cleanKesItem t = Inr c"
  shows "\<exists>copy h' F. cleanKesItem_heap h item = Inr (copy, h') \<and> rep h' copy c F
           \<and> F \<subseteq> {length h..<length h'} \<and> length h \<le> length h'
           \<and> (\<forall>a < length h. h' ! a = h ! a)"
proof -
  from assms(2) obtain t0 t1 t2 t3 t4 t5 t6 where
    v: "json_roundtrip t = Inr t0"
       "delete_in t0 ''metadata'' ''creationTimestamp'' = Inr t1"
       "delete_in t1 ''metadata'' ''generation'' = Inr t2"
       "delete_in t2 ''metadata'' ''resourceVersion'' = Inr t3"
       "delete_in t3 ''metadata'' ''uid'' = Inr t4"
       "delete_in t4 ''metadata'' ''selfLink'' = Inr t5"
       "delete_annotation t5 ''kubectl.kubernetes.io/last-applied-configuration'' = Inr t6"
       "delete_prop t6 ''status'' = Inr c"
    unfolding cleanKesItem_def bindE_eq_Inr by blast
  obtain copy h0 where al: "alloc t0 h = (copy, h0)" by (cases "alloc t0 h")
  from alloc_rep(1) [OF al] obtain ext F0 where
    a: "h0 = h @ ext" "rep h0 copy t0 F0" "F0 \<subseteq> {length h..<length h0}" by blast
  have p0: "F0 \<subseteq> F0" "length h0 = length h0" "\<forall>a. a \<notin> F0 \<longrightarrow> h0 ! a = h0 ! a" by simp_all
  from sim_step [OF a(2) p0 sim_delete_in [OF a(2) v(2)]] obtain h1 F1 where
    s1: "hdelete_in h0 copy ''metadata'' ''creationTimestamp'' = Inr h1"
    and r1: "rep h1 copy t1 F1" "F1 \<subseteq> F0" "length h1 = length h0"
      "\<forall>a. a \<notin> F0 \<longrightarrow> h1 ! a = h0 ! a" by blast
  from sim_step [OF r1 sim_delete_in [OF r1(1) v(3)]] obtain h2 F2 where
    s2: "hdelete_in h1 copy ''metadata'' ''generation'' = Inr h2"
    and r2: "rep h2 copy t2 F2" "F2 \<subseteq> F0" "length h2 = length h0"
      "\<forall>a. a \<notin> F0 \<longrightarrow> h2 ! a = h0 ! a" by blast
  from sim_step [OF r2 sim_delete_in [OF r2(1) v(4)]] obtain h3 F3 where
    s3: "hdelete_in h2 copy ''metadata'' ''resourceVersion'' = Inr h3"
    and r3: "rep h3 copy t3 F3" "F3 \<subseteq> F0" "length h3 = length h0"
      "\<forall>a. a \<notin> F0 \<longrightarrow> h3 ! a = h0 ! a" by blast
  from sim_step [OF r3 sim_delete_in [OF r3(1) v(5)]] obtain h4 F4 where
    s4: "hdelete_in h3 copy ''metadata'' ''uid'' = Inr h4"
    and r4: "rep h4 copy t4 F4" "F4 \<subseteq> F0" "length h4 = length h0"
      "\<forall>a. a \<notin> F0 \<longrightarrow> h4 ! a = h0 ! a" by blast
  from sim_step [OF r4 sim_delete_in [OF r4(1) v(6)]] obtain h5 F5 where
    s5: "hdelete_in h4 copy ''metadata'' ''selfLink'' = Inr h5"
    and r5: "rep h5 copy t5 F5" "F5 \<subseteq> F0" "length h5 = length h0"
      "\<forall>a. a \<notin> F0 \<longrightarrow> h5 ! a = h0 ! a" by blast
  from sim_step [OF r5 sim_delete_annotation [OF r5(1) v(7)]] obtain h6 F6 where
    s6: "hdelete_annotation h5 copy ''kubectl.kubernetes.io/last-applied-configuration''
         = Inr h6"
    and r6: "rep h6 copy t6 F6" "F6 \<subseteq> F0" "length h6 = length h0"
      "\<forall>a. a \<notin> F0 \<longrightarrow> h6 ! a = h0 ! a" by blast
  from sim_step [OF r6 sim_delete [OF r6(1) v(8)]] obtain h7 F7 where
    s7: "hdelete h6 copy ''status'' = Inr h7"
    and r7: "rep h7 copy c F7" "F7 \<subseteq> F0" "length h7 = length h0"
      "\<forall>a. a \<notin> F0 \<longrightarrow> h7 ! a = h0 ! a" by blast
  have run: "cleanKesItem_heap h item = Inr (copy, h7)"
    unfolding cleanKesItem_heap_def assms(1) v(1) bindE_Inr al prod.case s1 s2 s3 s4 s5 s6 s7
    by (rule refl)
  have f: "F7 \<subseteq> {length h..<length h7}" using r7(2,3) a(3) by simp
  have l: "length h \<le> length h7" using r7(3) a(1) by simp
  have "h7 ! b = h ! b" if "b < length h" for b
  proof -
    from that a(3) have "b \<notin> F0" by auto
    with r7(4) have "h7 ! b = h0 ! b" by simp
    with that a(1) show ?thesis by (simp add: nth_append)
  qed
  with run r7(1) f l show ?thesis by blast
qed

lemma get_cleaned:
  assumes "get t ''metadata'' = Inr m" "m \<noteq> JUndefined" "m \<noteq> JNull"
  shows "get (cleaned t) k =
     (if k = ''status'' then Inr JUndefined
      else if k = ''metadata'' then Inr (cleaned_metadata m)
      else get t k)"
proof -
  from assms(1,2) obtain kvs where t: "t = JObj kvs" by (cases t) auto
  have s: "get (store t ''metadata'' w) k' = (if k' = ''metadata'' then Inr w else get t k')"
    for w k'
    by (rule get_store [OF assms(1,2)])
  show ?thesis
    using assms(1) t s [of "cleaned_metadata m" k]
    by (auto simp: cleaned_def get_without)
qed

lemma get_cleaned_metadata_all:
  assumes "m \<noteq> JUndefined" "m \<noteq> JNull"
  shows "get (cleaned_metadata m) k =
     (if k \<in> set managed_fields then Inr JUndefined
      else if k = ''annotations'' then map_sum id (without [last_applied]) (get m k)
      else get m k)"
proof -
  let ?m' = "without managed_fields m"
  from assms obtain w where w: "get m k = Inr w" using get_Inr_ex by blast
  from assms obtain an where an: "get m ''annotations'' = Inr an" using get_Inr_ex by blast
  have an': "get ?m' ''annotations'' = Inr an"
    using an by (simp add: get_without managed_fields_def)
  have k': "get ?m' k = (if k \<in> set managed_fields then Inr JUndefined else get m k)"
    using w by (simp add: get_without)
  show ?thesis
  proof (cases "an = JUndefined \<or> an = JNull")
    case True
    then have "without [last_applied] an = an" by (auto simp: without_def)
    with True an an' k' show ?thesis
      by (auto simp: cleaned_metadata_def Let_def managed_fields_def)
  next
    case False
    then have "an \<noteq> JUndefined" by simp
    from get_store [OF an' this, of "without [last_applied] an" k] False an an' k'
    show ?thesis
      by (auto simp: cleaned_metadata_def Let_def managed_fields_def)
  qed
qed

text \<open>When the first deletion throws on trees, it throws on the heap.\<close>

lemma hdelete_in_throws:
  assumes "rep h v t F"
    and "get t f = Inl e \<or> get t f = Inr JUndefined \<or> get t f = Inr JNull"
  shows "hdelete_in h v f k = Inl TypeError"
proof (cases "get t f")
  case (Inl e')
  then have "t = JUndefined \<or> t = JNull" by (simp add: get_Inl_iff)
  with assms(1) have "v = HUndefined \<or> v = HNull"
    by (auto elim: rep_JUndefinedE rep_JNullE)
  then show ?thesis by (auto simp: hdelete_in_def hget_def)
next
  case (Inr m)
  from rep_hget [OF assms(1) Inr] obtain mv G where
    g: "hget h v f = Inr mv" "rep h mv m G" by blast
  from Inr assms(2) have "m = JUndefined \<or> m = JNull" by auto
  with g(2) have "mv = HUndefined \<or> mv = HNull"
    by (auto elim: rep_JUndefinedE rep_JNullE)
  with g(1) show ?thesis by (auto simp: hdelete_in_def hdelete_def)
qed

lemma cleanKesItem_heap_throws:
  assumes "stringify h item = Inr t" and "t \<noteq> JUndefined"
    and "get (json_clone t) ''metadata'' = Inl e
         \<or> get (json_clone t) ''metadata'' = Inr JUndefined
         \<or> get (json_clone t) ''metadata'' = Inr JNull"
  shows "cleanKesItem_heap h item = Inl TypeError"
proof -
  obtain copy h0 where al: "alloc (json_clone t) h = (copy, h0)"
    by (cases "alloc (json_clone t) h")
  from alloc_rep(1) [OF al] obtain F0 where "rep h0 copy (json_clone t) F0" by blast
  from hdelete_in_throws [OF this assms(3)]
  have "hdelete_in h0 copy ''metadata'' ''creationTimestamp'' = Inl TypeError" .
  then show ?thesis
    unfolding cleanKesItem_heap_def assms(1) bindE_Inr
    using assms(2) al by (simp add: json_roundtrip_def)
qed

text \<open>The \<open>metadata\<close> of the copy of a parsed value.\<close>

lemma get_metadata_json_clone:
  assumes "yaml_value t" and "get t ''metadata'' = Inr m"
  shows "get (json_clone t) ''metadata'' = Inr (json_clone m)
       \<or> (m = JUndefined \<and> get (json_clone t) ''metadata'' = Inl TypeError)"
proof (cases "json_clone t = JNull")
  case True
  with assms(2) have "m = JUndefined" by (auto simp: json_clone_eq_JNull)
  with True show ?thesis by simp
next
  case False
  from get_json_clone [OF assms(1) False, of "''metadata''"] assms(2) show ?thesis by simp
qed

text \<open>
  C3, as the code has it. Let \<open>item\<close> be a candidate in the heap \<open>h\<close>. When
  \<open>JSON.stringify\<close> throws on it, cleaning throws; it does on a candidate that is a
  cell of a set that loops, so on one that contains itself. \<open>JSON.stringify\<close> returns
  the tree \<open>t\<close> exactly when the walk from \<open>item\<close> ends with \<open>t\<close> for some fuel. Let then
  \<open>item\<close> denote the parsed tree \<open>t\<close>. When the
  \<open>metadata\<close> of \<open>t\<close> is missing or \<open>null\<close> in the JSON copy of \<open>t\<close> (so also when it is
  \<open>NaN\<close> or an infinity), cleaning throws a \<open>TypeError\<close>. When it is not, cleaning returns
  a copy that denotes \<open>cleaned (json_clone t)\<close>, as cleaning on trees does; the copy is made
  of cells that are new, and no cell of the heap before the call is changed, so the
  candidate (and every object that shares cells with it) denotes the same tree as
  before. In the copy \<open>status\<close> is gone and every other field but \<open>metadata\<close> is the JSON
  copy of the field of \<open>t\<close>, which is \<open>t\<close> itself when JSON changes nothing in \<open>t\<close>; in
  its \<open>metadata\<close> the five managed fields are gone and every other field but
  \<open>annotations\<close> is as in the copy; its \<open>annotations\<close> are those of the copy without the
  last-applied configuration, every other annotation being retained. In the target
  resource made from the copy, \<open>metadata\<close> is the cleaned \<open>metadata\<close>, so none of the
  managed fields is a field of \<open>metadata\<close> itself. (Maps nested in \<open>metadata\<close>, such as
  \<open>labels\<close>, are retained with all their keys.)
\<close>

theorem cleanKesItem_copy_and_frame:
  "(stringify h item = Inl e \<longrightarrow> cleanKesItem_heap h item = Inl e)
 \<and> (\<forall>C a. loops h C \<and> a \<in> C \<and> item = HRef a \<longrightarrow>
       cleanKesItem_heap h item = Inl TypeError)
 \<and> ((\<exists>n. read n h item = Some t) \<longleftrightarrow> stringify h item = Inr t)
 \<and> (stringify h item = Inr t \<and> yaml_value t \<and> get t ''metadata'' = Inr m0 \<and> m = json_clone m0
    \<longrightarrow>
      (m = JUndefined \<or> m = JNull \<longrightarrow>
         cleanKesItem_heap h item = Inl TypeError \<and> cleanKesItem t = Inl TypeError)
    \<and> (m \<noteq> JUndefined \<and> m \<noteq> JNull \<longrightarrow>
        (\<exists>copy h' F.
          cleanKesItem_heap h item = Inr (copy, h')
        \<and> rep h' copy (cleaned (json_clone t)) F \<and> F \<subseteq> {length h..<length h'}
        \<and> stringify h' copy = Inr (cleaned (json_clone t))
        \<and> cleanKesItem t = Inr (cleaned (json_clone t))
        \<and> length h \<le> length h' \<and> (\<forall>a < length h. h' ! a = h ! a)
        \<and> stringify h' item = Inr t
        \<and> (\<forall>k. get (cleaned (json_clone t)) k =
               (if k = ''status'' then Inr JUndefined
                else if k = ''metadata'' then Inr (cleaned_metadata m)
                else map_sum id json_clone (get t k)))
        \<and> (json_stable t \<longrightarrow> json_clone t = t \<and> m = m0)
        \<and> (\<forall>k. get (cleaned_metadata m) k =
               (if k \<in> set managed_fields then Inr JUndefined
                else if k = ''annotations'' then map_sum id (without [last_applied]) (get m k)
                else get m k))
        \<and> (\<forall>a k. get (without [last_applied] a) k =
               (if k = last_applied then map_sum id (\<lambda>_. JUndefined) (get a k) else get a k))
        \<and> (\<forall>cfg eso. kesToEso cfg (cleaned (json_clone t)) = Inr eso \<longrightarrow>
               get eso ''metadata'' = Inr (cleaned_metadata m)
               \<and> (\<forall>k \<in> set managed_fields.
                     get_path eso [''metadata'', k] = Inr JUndefined)))))"
proof (intro conjI impI allI)
  assume "stringify h item = Inl e"
  then show "cleanKesItem_heap h item = Inl e" by (simp add: cleanKesItem_heap_def)
next
  fix C a
  assume "loops h C \<and> a \<in> C \<and> item = HRef a"
  then have "stringify h item = Inl TypeError" using stringify_loops by blast
  then show "cleanKesItem_heap h item = Inl TypeError" by (simp add: cleanKesItem_heap_def)
next
  show "(\<exists>n. read n h item = Some t) \<longleftrightarrow> stringify h item = Inr t"
    using stringify_iff [of h item t] by blast
next
  assume a: "stringify h item = Inr t \<and> yaml_value t \<and> get t ''metadata'' = Inr m0
             \<and> m = json_clone m0"
  then have s: "stringify h item = Inr t" and y: "yaml_value t"
    and g0: "get t ''metadata'' = Inr m0" and m: "m = json_clone m0"
    by blast+
  from y have u: "t \<noteq> JUndefined" by auto
  assume "m = JUndefined \<or> m = JNull"
  with get_metadata_json_clone [OF y g0] m
  have n: "get (json_clone t) ''metadata'' = Inl TypeError
         \<or> get (json_clone t) ''metadata'' = Inr JUndefined
         \<or> get (json_clone t) ''metadata'' = Inr JNull"
    by auto
  from s u n show "cleanKesItem_heap h item = Inl TypeError"
    by (rule cleanKesItem_heap_throws)
  from u n show "cleanKesItem t = Inl TypeError"
    by (rule cleanKesItem_throws)
next
  assume a: "stringify h item = Inr t \<and> yaml_value t \<and> get t ''metadata'' = Inr m0
             \<and> m = json_clone m0"
  then have s: "stringify h item = Inr t" and y: "yaml_value t"
    and g0: "get t ''metadata'' = Inr m0" and m: "m = json_clone m0"
    by blast+
  from y have u: "t \<noteq> JUndefined" by auto
  assume "m \<noteq> JUndefined \<and> m \<noteq> JNull"
  then have n: "m \<noteq> JUndefined" "m \<noteq> JNull" by blast+
  from get_metadata_json_clone [OF y g0] n(1) m
  have g: "get (json_clone t) ''metadata'' = Inr m" by auto
  then have nn: "json_clone t \<noteq> JNull" by auto
  have c: "cleanKesItem t = Inr (cleaned (json_clone t))"
    by (rule cleanKesItem_cleaned [OF u g n])
  from cleanKesItem_heap_sim [OF s c] obtain copy h' F where
    r: "cleanKesItem_heap h item = Inr (copy, h')" "rep h' copy (cleaned (json_clone t)) F"
       "F \<subseteq> {length h..<length h'}"
    and l: "length h \<le> length h'" "\<forall>a < length h. h' ! a = h ! a"
    by blast
  have sc: "stringify h' copy = Inr (cleaned (json_clone t))" by (rule rep_stringify [OF r(2)])
  have o: "stringify h' item = Inr t" by (rule stringify_extend [OF s l])
  have g1: "\<forall>k. get (cleaned (json_clone t)) k =
           (if k = ''status'' then Inr JUndefined
            else if k = ''metadata'' then Inr (cleaned_metadata m)
            else map_sum id json_clone (get t k))"
    using get_cleaned [OF g n] get_json_clone [OF y nn] by simp
  have g5: "json_stable t \<longrightarrow> json_clone t = t \<and> m = m0"
  proof
    assume "json_stable t"
    then have "json_clone t = t" by (rule json_clone_stable)
    with g g0 show "json_clone t = t \<and> m = m0" by simp
  qed
  have g2: "\<forall>k. get (cleaned_metadata m) k =
           (if k \<in> set managed_fields then Inr JUndefined
            else if k = ''annotations'' then map_sum id (without [last_applied]) (get m k)
            else get m k)"
    using get_cleaned_metadata_all [OF n] by blast
  have g3: "\<forall>a k. get (without [last_applied] a) k =
           (if k = last_applied then map_sum id (\<lambda>_. JUndefined) (get a k) else get a k)"
    by (simp add: get_without)
  have g4: "\<forall>cfg eso. kesToEso cfg (cleaned (json_clone t)) = Inr eso \<longrightarrow>
           get eso ''metadata'' = Inr (cleaned_metadata m)
           \<and> (\<forall>k \<in> set managed_fields. get_path eso [''metadata'', k] = Inr JUndefined)"
  proof (intro allI impI)
    fix cfg eso
    assume "kesToEso cfg (cleaned (json_clone t)) = Inr eso"
    from kesToEso_result [OF this]
    have "get eso ''metadata'' = get (cleaned (json_clone t)) ''metadata''"
      by auto
    with g1 have e: "get eso ''metadata'' = Inr (cleaned_metadata m)" by simp
    with g2 show "get eso ''metadata'' = Inr (cleaned_metadata m)
           \<and> (\<forall>k \<in> set managed_fields. get_path eso [''metadata'', k] = Inr JUndefined)"
      by simp
  qed
  show "\<exists>copy h' F.
          cleanKesItem_heap h item = Inr (copy, h')
        \<and> rep h' copy (cleaned (json_clone t)) F \<and> F \<subseteq> {length h..<length h'}
        \<and> stringify h' copy = Inr (cleaned (json_clone t))
        \<and> cleanKesItem t = Inr (cleaned (json_clone t))
        \<and> length h \<le> length h' \<and> (\<forall>a < length h. h' ! a = h ! a)
        \<and> stringify h' item = Inr t
        \<and> (\<forall>k. get (cleaned (json_clone t)) k =
               (if k = ''status'' then Inr JUndefined
                else if k = ''metadata'' then Inr (cleaned_metadata m)
                else map_sum id json_clone (get t k)))
        \<and> (json_stable t \<longrightarrow> json_clone t = t \<and> m = m0)
        \<and> (\<forall>k. get (cleaned_metadata m) k =
               (if k \<in> set managed_fields then Inr JUndefined
                else if k = ''annotations'' then map_sum id (without [last_applied]) (get m k)
                else get m k))
        \<and> (\<forall>a k. get (without [last_applied] a) k =
               (if k = last_applied then map_sum id (\<lambda>_. JUndefined) (get a k) else get a k))
        \<and> (\<forall>cfg eso. kesToEso cfg (cleaned (json_clone t)) = Inr eso \<longrightarrow>
               get eso ''metadata'' = Inr (cleaned_metadata m)
               \<and> (\<forall>k \<in> set managed_fields.
                     get_path eso [''metadata'', k] = Inr JUndefined))"
    by (intro exI [of _ copy] exI [of _ h'] exI [of _ F] conjI r sc c l o g1 g5 g2 g3 g4)
qed

theorem cleanKesItem_copy_and_frame_witness:
  "stringify
      [CObj [(''kubectl.kubernetes.io/last-applied-configuration'', HStr ''{}''),
             (''note'', HStr ''keep'')],
       CObj [(''name'', HStr ''db''), (''uid'', HStr ''42''), (''annotations'', HRef 0)],
       CObj [(''kind'', HStr ''ExternalSecret''), (''metadata'', HRef 1),
             (''status'', HStr ''ok''), (''since'', HDate ''2021-01-01T00:00:00.000Z'')],
       CObj [(''metadata'', HRef 1)]]
      (HRef 2)
     = Inr (JObj [(''kind'', JStr ''ExternalSecret''),
            (''metadata'', JObj [(''name'', JStr ''db''), (''uid'', JStr ''42''),
            (''annotations'',
               JObj [(''kubectl.kubernetes.io/last-applied-configuration'', JStr ''{}''),
                     (''note'', JStr ''keep'')])]),
            (''status'', JStr ''ok''), (''since'', JDate ''2021-01-01T00:00:00.000Z'')])
   \<and> yaml_value (JObj [(''kind'', JStr ''ExternalSecret''),
            (''metadata'', JObj [(''name'', JStr ''db''), (''uid'', JStr ''42''),
            (''annotations'',
               JObj [(''kubectl.kubernetes.io/last-applied-configuration'', JStr ''{}''),
                     (''note'', JStr ''keep'')])]),
            (''status'', JStr ''ok''), (''since'', JDate ''2021-01-01T00:00:00.000Z'')])
   \<and> get (JObj [(''kind'', JStr ''ExternalSecret''),
            (''metadata'', JObj [(''name'', JStr ''db''), (''uid'', JStr ''42''),
            (''annotations'',
               JObj [(''kubectl.kubernetes.io/last-applied-configuration'', JStr ''{}''),
                     (''note'', JStr ''keep'')])]),
            (''status'', JStr ''ok''), (''since'', JDate ''2021-01-01T00:00:00.000Z'')])
          ''metadata''
     = Inr (JObj [(''name'', JStr ''db''), (''uid'', JStr ''42''),
            (''annotations'',
               JObj [(''kubectl.kubernetes.io/last-applied-configuration'', JStr ''{}''),
                     (''note'', JStr ''keep'')])])
   \<and> cleanKesItem_heap
      [CObj [(''kubectl.kubernetes.io/last-applied-configuration'', HStr ''{}''),
             (''note'', HStr ''keep'')],
       CObj [(''name'', HStr ''db''), (''uid'', HStr ''42''), (''annotations'', HRef 0)],
       CObj [(''kind'', HStr ''ExternalSecret''), (''metadata'', HRef 1),
             (''status'', HStr ''ok''), (''since'', HDate ''2021-01-01T00:00:00.000Z'')],
       CObj [(''metadata'', HRef 1)]]
      (HRef 2)
     = Inr (HRef 6,
      [CObj [(''kubectl.kubernetes.io/last-applied-configuration'', HStr ''{}''),
             (''note'', HStr ''keep'')],
       CObj [(''name'', HStr ''db''), (''uid'', HStr ''42''), (''annotations'', HRef 0)],
       CObj [(''kind'', HStr ''ExternalSecret''), (''metadata'', HRef 1),
             (''status'', HStr ''ok''), (''since'', HDate ''2021-01-01T00:00:00.000Z'')],
       CObj [(''metadata'', HRef 1)],
       CObj [(''note'', HStr ''keep'')],
       CObj [(''name'', HStr ''db''), (''annotations'', HRef 4)],
       CObj [(''kind'', HStr ''ExternalSecret''), (''metadata'', HRef 5),
             (''since'', HStr ''2021-01-01T00:00:00.000Z'')]])
   \<and> stringify
      [CObj [(''kubectl.kubernetes.io/last-applied-configuration'', HStr ''{}''),
             (''note'', HStr ''keep'')],
       CObj [(''name'', HStr ''db''), (''uid'', HStr ''42''), (''annotations'', HRef 0)],
       CObj [(''kind'', HStr ''ExternalSecret''), (''metadata'', HRef 1),
             (''status'', HStr ''ok''), (''since'', HDate ''2021-01-01T00:00:00.000Z'')],
       CObj [(''metadata'', HRef 1)],
       CObj [(''note'', HStr ''keep'')],
       CObj [(''name'', HStr ''db''), (''annotations'', HRef 4)],
       CObj [(''kind'', HStr ''ExternalSecret''), (''metadata'', HRef 5),
             (''since'', HStr ''2021-01-01T00:00:00.000Z'')]]
      (HRef 6)
     = Inr (JObj [(''kind'', JStr ''ExternalSecret''),
            (''metadata'', JObj [(''name'', JStr ''db''),
                                 (''annotations'', JObj [(''note'', JStr ''keep'')])]),
            (''since'', JStr ''2021-01-01T00:00:00.000Z'')])
   \<and> stringify
      [CObj [(''kubectl.kubernetes.io/last-applied-configuration'', HStr ''{}''),
             (''note'', HStr ''keep'')],
       CObj [(''name'', HStr ''db''), (''uid'', HStr ''42''), (''annotations'', HRef 0)],
       CObj [(''kind'', HStr ''ExternalSecret''), (''metadata'', HRef 1),
             (''status'', HStr ''ok''), (''since'', HDate ''2021-01-01T00:00:00.000Z'')],
       CObj [(''metadata'', HRef 1)],
       CObj [(''note'', HStr ''keep'')],
       CObj [(''name'', HStr ''db''), (''annotations'', HRef 4)],
       CObj [(''kind'', HStr ''ExternalSecret''), (''metadata'', HRef 5),
             (''since'', HStr ''2021-01-01T00:00:00.000Z'')]]
      (HRef 3)
     = Inr (JObj [(''metadata'', JObj [(''name'', JStr ''db''), (''uid'', JStr ''42''),
            (''annotations'',
               JObj [(''kubectl.kubernetes.io/last-applied-configuration'', JStr ''{}''),
                     (''note'', JStr ''keep'')])])])
   \<and> loops [CObj [(''metadata'', HRef 1)], CObj [(''self'', HRef 1)]] {0, 1}
   \<and> cleanKesItem_heap [CObj [(''metadata'', HRef 1)], CObj [(''self'', HRef 1)]] (HRef 0)
     = Inl TypeError"
proof -
  let ?H = "[CObj [(''kubectl.kubernetes.io/last-applied-configuration'', HStr ''{}''),
             (''note'', HStr ''keep'')],
       CObj [(''name'', HStr ''db''), (''uid'', HStr ''42''), (''annotations'', HRef 0)],
       CObj [(''kind'', HStr ''ExternalSecret''), (''metadata'', HRef 1),
             (''status'', HStr ''ok''), (''since'', HDate ''2021-01-01T00:00:00.000Z'')],
       CObj [(''metadata'', HRef 1)]]"
  let ?H' = "[CObj [(''kubectl.kubernetes.io/last-applied-configuration'', HStr ''{}''),
             (''note'', HStr ''keep'')],
       CObj [(''name'', HStr ''db''), (''uid'', HStr ''42''), (''annotations'', HRef 0)],
       CObj [(''kind'', HStr ''ExternalSecret''), (''metadata'', HRef 1),
             (''status'', HStr ''ok''), (''since'', HDate ''2021-01-01T00:00:00.000Z'')],
       CObj [(''metadata'', HRef 1)],
       CObj [(''note'', HStr ''keep'')],
       CObj [(''name'', HStr ''db''), (''annotations'', HRef 4)],
       CObj [(''kind'', HStr ''ExternalSecret''), (''metadata'', HRef 5),
             (''since'', HStr ''2021-01-01T00:00:00.000Z'')]]"
  let ?M = "JObj [(''name'', JStr ''db''), (''uid'', JStr ''42''),
            (''annotations'',
               JObj [(''kubectl.kubernetes.io/last-applied-configuration'', JStr ''{}''),
                     (''note'', JStr ''keep'')])]"
  let ?T = "JObj [(''kind'', JStr ''ExternalSecret''),
            (''metadata'', JObj [(''name'', JStr ''db''), (''uid'', JStr ''42''),
            (''annotations'',
               JObj [(''kubectl.kubernetes.io/last-applied-configuration'', JStr ''{}''),
                     (''note'', JStr ''keep'')])]),
            (''status'', JStr ''ok''), (''since'', JDate ''2021-01-01T00:00:00.000Z'')]"
  have a: "stringify ?H (HRef 2) = Inr ?T" by code_simp
  have b: "yaml_value ?T" by simp
  have c: "get ?T ''metadata'' = Inr ?M" by simp
  have d: "json_clone ?M \<noteq> JUndefined \<and> json_clone ?M \<noteq> JNull" by simp
  from cleanKesItem_copy_and_frame [of ?H "HRef 2" TypeError ?T ?M "json_clone ?M"] a b c d
  obtain copy h' where
    r: "cleanKesItem_heap ?H (HRef 2) = Inr (copy, h')"
       "stringify h' copy = Inr (cleaned (json_clone ?T))"
    by blast
  have e: "cleanKesItem_heap ?H (HRef 2) = Inr (HRef 6, ?H')" by code_simp
  with r(1) have "copy = HRef 6" "h' = ?H'" by simp_all
  with r(2) have f: "stringify ?H' (HRef 6) = Inr (cleaned (json_clone ?T))" by simp
  have g: "cleaned (json_clone ?T) = JObj [(''kind'', JStr ''ExternalSecret''),
            (''metadata'', JObj [(''name'', JStr ''db''),
                                 (''annotations'', JObj [(''note'', JStr ''keep'')])]),
            (''since'', JStr ''2021-01-01T00:00:00.000Z'')]"
    by code_simp
  have i: "stringify ?H' (HRef 3) = Inr (JObj [(''metadata'', ?M)])" by code_simp
  have j: "loops [CObj [(''metadata'', HRef 1)], CObj [(''self'', HRef 1)]] {0, 1}"
    by (simp add: loops_def)
  from cleanKesItem_copy_and_frame
         [of "[CObj [(''metadata'', HRef 1)], CObj [(''self'', HRef 1)]]" "HRef 0"] j
  have k: "cleanKesItem_heap [CObj [(''metadata'', HRef 1)], CObj [(''self'', HRef 1)]] (HRef 0)
     = Inl TypeError"
    by blast
  from a b c e f [unfolded g] i j k show ?thesis by (intro conjI)
qed

text \<open>
  The claim as written fails in three places. A managed key inside a map nested in
  \<open>metadata\<close> is retained: the \<open>uid\<close> label is in the target resource. An eligible
  candidate without \<open>metadata\<close> is not copied: cleaning throws. And neither is an
  eligible candidate whose \<open>metadata\<close> contains itself.
\<close>

theorem cleanKesItem_nested_counterexample:
  "cleanKesItem (JObj [(''apiVersion'', JStr ''kubernetes-client.io/v1''),
                       (''kind'', JStr ''ExternalSecret''),
                       (''metadata'', JObj [(''name'', JStr ''db''), (''uid'', JStr ''1''),
                                            (''labels'', JObj [(''uid'', JStr ''42'')])]),
                       (''spec'', JObj [(''backendType'', JStr ''vault'')])])
     = Inr (JObj [(''apiVersion'', JStr ''kubernetes-client.io/v1''),
                  (''kind'', JStr ''ExternalSecret''),
                  (''metadata'', JObj [(''name'', JStr ''db''),
                                       (''labels'', JObj [(''uid'', JStr ''42'')])]),
                  (''spec'', JObj [(''backendType'', JStr ''vault'')])])
   \<and> kesToEso default_flags
        (JObj [(''apiVersion'', JStr ''kubernetes-client.io/v1''),
               (''kind'', JStr ''ExternalSecret''),
               (''metadata'', JObj [(''name'', JStr ''db''),
                                    (''labels'', JObj [(''uid'', JStr ''42'')])]),
               (''spec'', JObj [(''backendType'', JStr ''vault'')])])
     = Inr (JObj [(''apiVersion'', JStr ''external-secrets.io/v1alpha1''),
                  (''kind'', JStr ''ExternalSecret''),
                  (''metadata'', JObj [(''name'', JStr ''db''),
                                       (''labels'', JObj [(''uid'', JStr ''42'')])]),
                  (''spec'', JObj [(''refreshInterval'', JStr ''1h''),
                     (''secretStoreRef'', JObj [(''name'', JStr ''vault''),
                                                (''kind'', JStr ''SecretStore'')])])])
   \<and> get_path (JObj [(''apiVersion'', JStr ''external-secrets.io/v1alpha1''),
                  (''kind'', JStr ''ExternalSecret''),
                  (''metadata'', JObj [(''name'', JStr ''db''),
                                       (''labels'', JObj [(''uid'', JStr ''42'')])]),
                  (''spec'', JObj [(''refreshInterval'', JStr ''1h''),
                     (''secretStoreRef'', JObj [(''name'', JStr ''vault''),
                                                (''kind'', JStr ''SecretStore'')])])])
        [''metadata'', ''labels'', ''uid''] = Inr (JStr ''42'')
   \<and> eligible (JObj [(''apiVersion'', JStr ''kubernetes-client.io/v1''),
                     (''kind'', JStr ''ExternalSecret''),
                     (''spec'', JObj [(''backendType'', JStr ''vault'')])])
   \<and> cleanKesItem (JObj [(''apiVersion'', JStr ''kubernetes-client.io/v1''),
                         (''kind'', JStr ''ExternalSecret''),
                         (''spec'', JObj [(''backendType'', JStr ''vault'')])])
     = Inl TypeError
   \<and> hget [CObj [(''apiVersion'', HStr ''kubernetes-client.io/v1''),
                  (''kind'', HStr ''ExternalSecret''),
                  (''metadata'', HRef 1),
                  (''spec'', HStr ''x'')],
            CObj [(''name'', HStr ''db''), (''self'', HRef 1)]]
        (HRef 0) ''metadata'' = Inr (HRef 1)
   \<and> cleanKesItem_heap
        [CObj [(''apiVersion'', HStr ''kubernetes-client.io/v1''),
               (''kind'', HStr ''ExternalSecret''),
               (''metadata'', HRef 1),
               (''spec'', HStr ''x'')],
         CObj [(''name'', HStr ''db''), (''self'', HRef 1)]]
        (HRef 0) = Inl TypeError"
proof -
  have "cleanKesItem_heap
        [CObj [(''apiVersion'', HStr ''kubernetes-client.io/v1''),
               (''kind'', HStr ''ExternalSecret''),
               (''metadata'', HRef 1),
               (''spec'', HStr ''x'')],
         CObj [(''name'', HStr ''db''), (''self'', HRef 1)]]
        (HRef 0) = Inl TypeError"
    by code_simp
  then show ?thesis
    by (simp add: cleanKesItem_def json_roundtrip_def delete_in_def delete_annotation_def
        kesToEso_def default_flags_def eligible_def hget_def hlookup_def)
qed

end
